theory Spec2Isabelle
  imports Complex_Main
begin

unbundle bit_operations_syntax

section \<open>Data model of \<^verbatim>\<open>analyzer.py\<close>\<close>

text \<open>
  The program keeps everything in Python dictionaries. A dictionary with a fixed set of
  string keys is a record whose optional keys are \<open>option\<close> fields; a dictionary that
  is iterated (the device mapping, a device's interfaces) is an association list in
  insertion order, with distinct keys.

  A value that is either \<^verbatim>\<open>None\<close> or a \<^verbatim>\<open>str\<close> (the \<^verbatim>\<open>'hostname'\<close> of a device):
\<close>

datatype pyval = PyNone | PyStr string

text \<open>The exceptions that escape the functions modelled here.\<close>

datatype error = KeyError | IndexError

text \<open>
  An interface dictionary: \<^verbatim>\<open>parse_config_file\<close> creates it empty and adds the keys
  \<^verbatim>\<open>'description'\<close>, \<^verbatim>\<open>'ip_address'\<close> and \<^verbatim>\<open>'subnet_mask'\<close>.
\<close>

record interface =
  description :: "string option"
  ip_address :: "string option"
  subnet_mask :: "string option"

text \<open>
  The \<^verbatim>\<open>device_details\<close> dictionary. The keys \<^verbatim>\<open>'hostname'\<close> and \<^verbatim>\<open>'interfaces'\<close> are read
  with \<^verbatim>\<open>.get(key, default)\<close>, so each may be absent (\<open>None\<close>); a present \<^verbatim>\<open>'hostname'\<close>
  holds \<^verbatim>\<open>None\<close> or a string. The fields carry the prefix \<open>dd_\<close> because the router
  object has an attribute \<^verbatim>\<open>hostname\<close> of its own.
\<close>

record device_details =
  dd_hostname :: "pyval option"
  dd_interfaces :: "(string \<times> interface) list option"
  dd_default_route :: pyval
  dd_ospf_enabled :: bool

text \<open>A link dictionary, as \<^verbatim>\<open>build_topology\<close> appends it.\<close>

record link =
  from_device :: string
  from_interface :: string
  to_device :: string
  to_interface :: string

section \<open>\<^verbatim>\<open>build_topology\<close>\<close>

text \<open>
  A \<^verbatim>\<open>for\<close> loop whose body may raise: the first exception leaves the loop, otherwise
  the state is passed on to the next element.
\<close>

primrec for_each :: "('a \<Rightarrow> 's \<Rightarrow> error + 's) \<Rightarrow> 'a list \<Rightarrow> 's \<Rightarrow> error + 's" where
  "for_each body [] s = Inr s"
| "for_each body (x # xs) s =
     (case body x s of Inl e \<Rightarrow> Inl e | Inr s' \<Rightarrow> for_each body xs s')"

text \<open>\<^verbatim>\<open>devices_data[dev_id].get('interfaces', {})\<close>\<close>

definition get_interfaces :: "device_details \<Rightarrow> (string \<times> interface) list" where
  "get_interfaces details = (case dd_interfaces details of None \<Rightarrow> [] | Some ifs \<Rightarrow> ifs)"

text \<open>
  Lines 34 to 40, the body of the innermost loop. The standard library call
  \<^verbatim>\<open>ipaddress.IPv4Interface(s).network\<close> is the parameter \<open>network\<close>: it maps the
  string \<^verbatim>\<open>address/mask\<close> to the network it denotes, or to \<open>None\<close> when the library
  raises \<^verbatim>\<open>AddressValueError\<close> or \<^verbatim>\<open>NetmaskValueError\<close> (both are \<^verbatim>\<open>ValueError\<close>s, which
  the \<^verbatim>\<open>except\<close> clause swallows). Reading \<^verbatim>\<open>int_details['subnet_mask']\<close> of a dictionary
  without that key raises \<^verbatim>\<open>KeyError\<close>, which the clause does not catch. The format
  string of \<open>net1\<close> is evaluated, and \<open>net1\<close> computed, before that of \<open>net2\<close>.
\<close>

definition compare_interfaces ::
  "(string \<Rightarrow> 'n option) \<Rightarrow> string \<Rightarrow> string \<times> interface \<Rightarrow> string \<Rightarrow> string \<times> interface
     \<Rightarrow> link list \<Rightarrow> error + link list" where
  "compare_interfaces network dev1_id int1 dev2_id int2 links =
     (case (ip_address (snd int1), ip_address (snd int2)) of
        (Some addr1, Some addr2) \<Rightarrow>
          (case subnet_mask (snd int1) of
             None \<Rightarrow> Inl KeyError
           | Some mask1 \<Rightarrow>
               (case network (addr1 @ ''/'' @ mask1) of
                  None \<Rightarrow> Inr links
                | Some net1 \<Rightarrow>
                    (case subnet_mask (snd int2) of
                       None \<Rightarrow> Inl KeyError
                     | Some mask2 \<Rightarrow>
                         (case network (addr2 @ ''/'' @ mask2) of
                            None \<Rightarrow> Inr links
                          | Some net2 \<Rightarrow>
                              Inr (if net1 = net2
                                   then links @ [\<lparr>from_device = dev1_id, from_interface = fst int1,
                                                   to_device = dev2_id, to_interface = fst int2\<rparr>]
                                   else links)))))
      | _ \<Rightarrow> Inr links)"

text \<open>Lines 29 to 40: one pair of device ids, and the two loops over their interfaces.\<close>

definition compare_devices ::
  "(string \<Rightarrow> 'n option) \<Rightarrow> (string \<times> device_details) list \<Rightarrow> string \<Rightarrow> string
     \<Rightarrow> link list \<Rightarrow> error + link list" where
  "compare_devices network devices_data dev1_id dev2_id links =
     (case map_of devices_data dev1_id of
        None \<Rightarrow> Inl KeyError
      | Some details1 \<Rightarrow>
          (case map_of devices_data dev2_id of
             None \<Rightarrow> Inl KeyError
           | Some details2 \<Rightarrow>
               for_each
                 (\<lambda>int1. for_each (compare_interfaces network dev1_id int1 dev2_id)
                    (get_interfaces details2))
                 (get_interfaces details1) links))"

text \<open>
  The whole function: \<open>i\<close> ranges over \<^verbatim>\<open>range(len(device_ids))\<close> and \<open>j\<close> over
  \<^verbatim>\<open>range(i + 1, len(device_ids))\<close>. The result is \<open>Inr links\<close> when the call returns and
  \<open>Inl e\<close> when it raises \<open>e\<close>.
\<close>

definition build_topology ::
  "(string \<Rightarrow> 'n option) \<Rightarrow> (string \<times> device_details) list \<Rightarrow> error + link list" where
  "build_topology network devices_data =
     (let device_ids = map fst devices_data in
      for_each
        (\<lambda>i. for_each
           (\<lambda>j. compare_devices network devices_data (device_ids ! i) (device_ids ! j))
           [i + 1 ..< length device_ids])
        [0 ..< length device_ids] [])"

text \<open>
  What the loops compute, written without the loops: the network of one interface, the
  test of line 38, the link of line 39, the links of one interface pair, of one device
  pair and of the whole mapping.
\<close>

definition network_of :: "(string \<Rightarrow> 'n option) \<Rightarrow> interface \<Rightarrow> 'n option" where
  "network_of network details =
     (case (ip_address details, subnet_mask details) of
        (Some addr, Some msk) \<Rightarrow> network (addr @ ''/'' @ msk)
      | _ \<Rightarrow> None)"

definition same_network :: "(string \<Rightarrow> 'n option) \<Rightarrow> interface \<Rightarrow> interface \<Rightarrow> bool" where
  "same_network network details1 details2 =
     (case (network_of network details1, network_of network details2) of
        (Some net1, Some net2) \<Rightarrow> net1 = net2
      | _ \<Rightarrow> False)"

definition link_between :: "string \<Rightarrow> string \<Rightarrow> string \<Rightarrow> string \<Rightarrow> link" where
  "link_between d1 n1 d2 n2 =
     \<lparr>from_device = d1, from_interface = n1, to_device = d2, to_interface = n2\<rparr>"

definition emitted ::
  "(string \<Rightarrow> 'n option) \<Rightarrow> string \<Rightarrow> string \<times> interface \<Rightarrow> string \<Rightarrow> string \<times> interface
     \<Rightarrow> link list" where
  "emitted network d1 int1 d2 int2 =
     (if same_network network (snd int1) (snd int2)
      then [link_between d1 (fst int1) d2 (fst int2)] else [])"

definition pair_links ::
  "(string \<Rightarrow> 'n option) \<Rightarrow> string \<times> device_details \<Rightarrow> string \<times> device_details \<Rightarrow> link list" where
  "pair_links network dev1 dev2 =
     concat (map (\<lambda>int1. concat (map (emitted network (fst dev1) int1 (fst dev2))
        (get_interfaces (snd dev2)))) (get_interfaces (snd dev1)))"

definition all_links :: "(string \<Rightarrow> 'n option) \<Rightarrow> (string \<times> device_details) list \<Rightarrow> link list" where
  "all_links network devs =
     concat (map (\<lambda>i. concat (map (\<lambda>j. pair_links network (devs ! i) (devs ! j))
        [i + 1 ..< length devs])) [0 ..< length devs])"

text \<open>
  The shape of the mapping that \<^verbatim>\<open>load_configurations\<close> hands over: the keys of a
  dictionary are distinct (the device ids, and the interface names of each device), and
  \<^verbatim>\<open>parse_config_file\<close> stores \<^verbatim>\<open>'ip_address'\<close> and \<^verbatim>\<open>'subnet_mask'\<close> together, so an
  interface with an address has a mask.
\<close>

definition unique_keys :: "(string \<times> device_details) list \<Rightarrow> bool" where
  "unique_keys devs =
     (distinct (map fst devs) \<and>
      list_all (\<lambda>dev. distinct (map fst (get_interfaces (snd dev)))) devs)"

definition masks_present :: "(string \<times> device_details) list \<Rightarrow> bool" where
  "masks_present devs =
     list_all (\<lambda>dev. list_all (\<lambda>int. ip_address (snd int) = None \<or> subnet_mask (snd int) \<noteq> None)
        (get_interfaces (snd dev))) devs"

text \<open>
  The shape of one device that the comparison of interfaces relies on: distinct
  interface names, and a mask wherever there is an address.
\<close>

definition complete_interfaces :: "device_details \<Rightarrow> bool" where
  "complete_interfaces details =
     (distinct (map fst (get_interfaces details)) \<and>
      list_all (\<lambda>int. ip_address (snd int) = None \<or> subnet_mask (snd int) \<noteq> None)
        (get_interfaces details))"

subsection \<open>An instance of the library call\<close>

text \<open>
  For concrete runs, \<^verbatim>\<open>ipaddress.IPv4Interface(s).network\<close> on ASCII strings, after
  CPython 3.12: the string is split at \<^verbatim>\<open>/\<close> (more than one is an error); the address
  is four decimal octets of one to three digits, at most 255, without leading zeros; the
  mask is a prefix length of at most 32, or a dotted net mask, or a dotted host mask. The
  network is the pair of the address with the host bits cleared and the net mask, which
  is what the library compares in \<^verbatim>\<open>net1 == net2\<close>.
\<close>

primrec split_on :: "char \<Rightarrow> string \<Rightarrow> string list" where
  "split_on sep [] = [[]]"
| "split_on sep (c # cs) =
     (if c = sep then [] # split_on sep cs
      else (case split_on sep cs of [] \<Rightarrow> [[c]] | w # ws \<Rightarrow> (c # w) # ws))"

definition isdigit :: "char \<Rightarrow> bool" where
  "isdigit c = (c \<in> set ''0123456789'')"

definition digit_value :: "char \<Rightarrow> int" where
  "digit_value c = int (length (takeWhile (\<lambda>d. d \<noteq> c) ''0123456789''))"

definition decimal :: "string \<Rightarrow> int" where
  "decimal s = foldl (\<lambda>n c. 10 * n + digit_value c) 0 s"

definition parse_octet :: "string \<Rightarrow> int option" where
  "parse_octet octet_str =
     (if octet_str = [] \<or> \<not> list_all isdigit octet_str \<or> 3 < length octet_str then None
      else if octet_str \<noteq> ''0'' \<and> hd octet_str = CHR ''0'' then None
      else if 255 < decimal octet_str then None
      else Some (decimal octet_str))"

definition ip_int_from_string :: "string \<Rightarrow> int option" where
  "ip_int_from_string ip_str =
     (if ip_str = [] then None
      else (case map parse_octet (split_on CHR ''.'' ip_str) of
              [Some a, Some b, Some c, Some d] \<Rightarrow> Some (((a * 256 + b) * 256 + c) * 256 + d)
            | _ \<Rightarrow> None))"

text \<open>The net mask of a prefix length, and the prefix length of a net mask if it is one.\<close>

definition ip_int_from_prefix :: "nat \<Rightarrow> int" where
  "ip_int_from_prefix prefixlen = 2 ^ 32 - 2 ^ (32 - prefixlen)"

definition prefix_from_ip_int :: "int \<Rightarrow> nat option" where
  "prefix_from_ip_int ip_int = List.find (\<lambda>p. ip_int = ip_int_from_prefix p) [0 ..< 33]"

definition make_netmask :: "string \<Rightarrow> int option" where
  "make_netmask arg =
     (if arg \<noteq> [] \<and> list_all isdigit arg
      then (if decimal arg \<le> 32 then Some (ip_int_from_prefix (nat (decimal arg))) else None)
      else (case ip_int_from_string arg of
              None \<Rightarrow> None
            | Some ip_int \<Rightarrow>
                (case prefix_from_ip_int ip_int of
                   Some p \<Rightarrow> Some (ip_int_from_prefix p)
                 | None \<Rightarrow>
                     map_option ip_int_from_prefix (prefix_from_ip_int (2 ^ 32 - 1 - ip_int)))))"

definition IPv4Interface_network :: "string \<Rightarrow> (int \<times> int) option" where
  "IPv4Interface_network address =
     (case split_on CHR ''/'' address of
        [addr] \<Rightarrow>
          (case ip_int_from_string addr of
             None \<Rightarrow> None
           | Some ip_int \<Rightarrow> Some (ip_int, ip_int_from_prefix 32))
      | [addr, msk] \<Rightarrow>
          (case ip_int_from_string addr of
             None \<Rightarrow> None
           | Some ip_int \<Rightarrow>
               (case make_netmask msk of
                  None \<Rightarrow> None
                | Some netmask \<Rightarrow> Some (ip_int AND netmask, netmask)))
      | _ \<Rightarrow> None)"

text \<open>
  Four mappings for concrete runs. The first is the end-to-end scenario of the
  specification. In the second, the interface of \<^verbatim>\<open>R1\<close> has an address and no mask. The
  third is the first with one more interface on \<^verbatim>\<open>R1\<close>, which has an address and no
  mask. The fourth has an interface without address, one with a malformed address, two
  that share a network, and one on a network of its own.
\<close>

definition addressed :: "string \<Rightarrow> string \<Rightarrow> interface" where
  "addressed addr msk = \<lparr>description = None, ip_address = Some addr, subnet_mask = Some msk\<rparr>"

definition device_with :: "pyval \<Rightarrow> (string \<times> interface) list \<Rightarrow> device_details" where
  "device_with name ifs =
     \<lparr>dd_hostname = Some name, dd_interfaces = Some ifs, dd_default_route = PyNone,
      dd_ospf_enabled = False\<rparr>"

definition two_routers :: "(string \<times> device_details) list" where
  "two_routers =
     [(''R1'', device_with (PyStr ''Router1'')
         [(''Gi0/1'', addressed ''10.0.0.1'' ''255.255.255.252'')]),
      (''R2'', device_with (PyStr ''Router2'')
         [(''Gi0/1'', addressed ''10.0.0.2'' ''255.255.255.252'')])]"

definition mask_missing :: "(string \<times> device_details) list" where
  "mask_missing =
     [(''R1'', device_with (PyStr ''Router1'')
         [(''Gi0/1'', \<lparr>description = None, ip_address = Some ''10.0.0.1'', subnet_mask = None\<rparr>)]),
      (''R2'', device_with (PyStr ''Router2'')
         [(''Gi0/1'', addressed ''10.0.0.2'' ''255.255.255.252'')])]"

definition mask_missing_beside_link :: "(string \<times> device_details) list" where
  "mask_missing_beside_link =
     [(''R1'', device_with (PyStr ''Router1'')
         [(''Gi0/0'', \<lparr>description = None, ip_address = Some ''192.168.1.1'', subnet_mask = None\<rparr>),
          (''Gi0/1'', addressed ''10.0.0.1'' ''255.255.255.252'')]),
      (''R2'', device_with (PyStr ''Router2'')
         [(''Gi0/1'', addressed ''10.0.0.2'' ''255.255.255.252'')])]"

definition gaps_and_noise :: "(string \<times> device_details) list" where
  "gaps_and_noise =
     [(''R1'', device_with (PyStr ''Router1'')
         [(''Gi0/0'', \<lparr>description = Some ''uplink'', ip_address = None, subnet_mask = None\<rparr>),
          (''Gi0/1'', addressed ''10.0.0.1'' ''255.255.255.252'')]),
      (''R2'', device_with (PyStr ''Router2'')
         [(''Gi0/0'', addressed ''10.0.0.300'' ''255.255.255.252''),
          (''Gi0/1'', addressed ''10.0.0.2'' ''255.255.255.252''),
          (''Gi0/2'', addressed ''192.168.5.1'' ''255.255.255.0'')])]"

section \<open>\<^verbatim>\<open>parse_config_file\<close>\<close>

text \<open>
  The strings of the file are ASCII. \<^verbatim>\<open>str.strip()\<close> and \<^verbatim>\<open>str.split()\<close> cut at the
  characters for which \<^verbatim>\<open>str.isspace()\<close> holds: tab, line feed, vertical tab, form feed,
  carriage return, the four separators \<^verbatim>\<open>0x1c\<close> to \<^verbatim>\<open>0x1f\<close>, and the space.
\<close>

definition isspace :: "char \<Rightarrow> bool" where
  "isspace c =
     (c \<in> set [CHR 0x09, CHR 0x0A, CHR 0x0B, CHR 0x0C, CHR 0x0D,
                CHR 0x1C, CHR 0x1D, CHR 0x1E, CHR 0x1F, CHR 0x20])"

definition strip :: "string \<Rightarrow> string" where
  "strip s = rev (dropWhile isspace (rev (dropWhile isspace s)))"

text \<open>\<^verbatim>\<open>s.split()\<close>: the maximal runs of characters that are not white space; \<open>w\<close> is the run being read.\<close>

primrec split_words :: "string \<Rightarrow> string \<Rightarrow> string list" where
  "split_words [] w = (if w = [] then [] else [w])"
| "split_words (c # cs) w =
     (if isspace c then (if w = [] then split_words cs [] else w # split_words cs [])
      else split_words cs (w @ [c]))"

definition split :: "string \<Rightarrow> string list" where
  "split s = split_words s []"

definition startswith :: "string \<Rightarrow> string \<Rightarrow> bool" where
  "startswith s p = (take (length p) s = p)"

text \<open>\<^verbatim>\<open>' '.join(words)\<close>\<close>

fun join :: "string list \<Rightarrow> string" where
  "join [] = []"
| "join [w] = w"
| "join (w # ws) = w @ '' '' @ join ws"

text \<open>\<^verbatim>\<open>xs[n]\<close> for \<open>n \<ge> 0\<close>, which raises \<^verbatim>\<open>IndexError\<close> out of range.\<close>

definition getitem :: "'a list \<Rightarrow> nat \<Rightarrow> error + 'a" where
  "getitem xs n = (if n < length xs then Inr (xs ! n) else Inl IndexError)"

text \<open>\<^verbatim>\<open>d[k] = v\<close> on a dictionary in insertion order: a present key keeps its place.\<close>

primrec setitem :: "'k \<Rightarrow> 'v \<Rightarrow> ('k \<times> 'v) list \<Rightarrow> ('k \<times> 'v) list" where
  "setitem k v [] = [(k, v)]"
| "setitem k v (p # ps) = (if fst p = k then (k, v) # ps else p # setitem k v ps)"

text \<open>
  \<^verbatim>\<open>device_details['interfaces'][current_interface][key] = value\<close>, as the change \<open>f\<close>
  of the interface dictionary; \<^verbatim>\<open>KeyError\<close> if the interface is not there.
\<close>

definition update_interface ::
  "string \<Rightarrow> (interface \<Rightarrow> interface) \<Rightarrow> device_details \<Rightarrow> error + device_details" where
  "update_interface name f details =
     (case map_of (get_interfaces details) name of
        None \<Rightarrow> Inl KeyError
      | Some int_details \<Rightarrow>
          Inr (details\<lparr>dd_interfaces := Some (setitem name (f int_details) (get_interfaces details))\<rparr>))"

text \<open>
  Lines 16 to 22, the body of the loop over the lines. The state is the dictionary and
  \<^verbatim>\<open>current_interface\<close>, which is \<^verbatim>\<open>None\<close> or a word of a line (and so true when it is
  not \<^verbatim>\<open>None\<close> and not empty).
\<close>

definition parse_line ::
  "string \<Rightarrow> device_details \<times> string option \<Rightarrow> error + device_details \<times> string option" where
  "parse_line raw state =
     (let line = strip raw; details = fst state; current_interface = snd state;
          truthy = (case current_interface of None \<Rightarrow> False | Some name \<Rightarrow> name \<noteq> [])
      in
      if startswith line ''hostname'' then
        (case getitem (split line) 1 of
           Inl e \<Rightarrow> Inl e
         | Inr name \<Rightarrow> Inr (details\<lparr>dd_hostname := Some (PyStr name)\<rparr>, current_interface))
      else if startswith line ''interface'' then
        (case getitem (split line) 1 of
           Inl e \<Rightarrow> Inl e
         | Inr name \<Rightarrow>
             Inr (details\<lparr>dd_interfaces := Some (setitem name
                    \<lparr>description = None, ip_address = None, subnet_mask = None\<rparr>
                    (get_interfaces details))\<rparr>, Some name))
      else if startswith line ''router ospf'' then
        Inr (details\<lparr>dd_ospf_enabled := True\<rparr>, current_interface)
      else if startswith line ''description'' \<and> truthy then
        (case update_interface (the current_interface)
                (\<lambda>d. d\<lparr>description := Some (join (tl (split line)))\<rparr>) details of
           Inl e \<Rightarrow> Inl e
         | Inr details' \<Rightarrow> Inr (details', current_interface))
      else if startswith line ''ip address'' \<and> truthy then
        (let parts = split line in
         case getitem parts 2 of
           Inl e \<Rightarrow> Inl e
         | Inr addr \<Rightarrow>
             (case update_interface (the current_interface)
                     (\<lambda>d. d\<lparr>ip_address := Some addr\<rparr>) details of
                Inl e \<Rightarrow> Inl e
              | Inr details1 \<Rightarrow>
                  (case getitem parts 3 of
                     Inl e \<Rightarrow> Inl e
                   | Inr msk \<Rightarrow>
                       (case update_interface (the current_interface)
                               (\<lambda>d. d\<lparr>subnet_mask := Some msk\<rparr>) details1 of
                          Inl e \<Rightarrow> Inl e
                        | Inr details2 \<Rightarrow> Inr (details2, current_interface)))))
      else Inr state)"

text \<open>
  The function, on the name of the folder that holds the file and the lines of the file.
  Line 12 creates the dictionary with the key \<^verbatim>\<open>'hostname'\<close> present and set to \<^verbatim>\<open>None\<close>.
\<close>

definition initial_details :: device_details where
  "initial_details =
     \<lparr>dd_hostname = Some PyNone, dd_interfaces = Some [], dd_default_route = PyNone,
      dd_ospf_enabled = False\<rparr>"

definition parse_config_file :: "string \<Rightarrow> string list \<Rightarrow> error + string \<times> device_details" where
  "parse_config_file device_id lines =
     (case for_each parse_line lines (initial_details, None) of
        Inl e \<Rightarrow> Inl e
      | Inr state \<Rightarrow> Inr (device_id, fst state))"

section \<open>\<^verbatim>\<open>NetworkSwitch\<close>\<close>

text \<open>
  \<^verbatim>\<open>self.queues\<close> is a \<^verbatim>\<open>defaultdict(Queue)\<close>: a finite map from device ids to queues, where
  reading a missing key stores an empty queue under it first. A \<^verbatim>\<open>Queue()\<close> has no size
  bound, so it is a list, oldest element first.
\<close>

record 'p network_switch =
  queues :: "string \<Rightarrow> 'p list option"

definition queues_getitem :: "'p network_switch \<Rightarrow> string \<Rightarrow> 'p list \<times> 'p network_switch" where
  "queues_getitem sw k =
     (case queues sw k of
        Some q \<Rightarrow> (q, sw)
      | None \<Rightarrow> ([], sw\<lparr>queues := (queues sw)(k \<mapsto> [])\<rparr>))"

definition send_packet :: "'p network_switch \<Rightarrow> string \<Rightarrow> 'p \<Rightarrow> 'p network_switch" where
  "send_packet sw destination_id packet =
     (let (q, sw') = queues_getitem sw destination_id
      in sw'\<lparr>queues := (queues sw')(destination_id \<mapsto> q @ [packet])\<rparr>)"

text \<open>\<^verbatim>\<open>get(block=False)\<close> raises \<^verbatim>\<open>Empty\<close> on an empty queue, and the function returns \<^verbatim>\<open>None\<close>.\<close>

definition receive_packet :: "'p network_switch \<Rightarrow> string \<Rightarrow> 'p option \<times> 'p network_switch" where
  "receive_packet sw device_id =
     (let (q, sw') = queues_getitem sw device_id
      in case q of
           [] \<Rightarrow> (None, sw')
         | packet # rest \<Rightarrow> (Some packet, sw'\<lparr>queues := (queues sw')(device_id \<mapsto> rest)\<rparr>))"

text \<open>
  For the statements: the content of a mailbox (empty when it was never referenced), a
  sequence of sends, each with its destination, and \<open>n\<close> receives in a row for one id.
\<close>

definition mailbox :: "'p network_switch \<Rightarrow> string \<Rightarrow> 'p list" where
  "mailbox sw k = (case queues sw k of None \<Rightarrow> [] | Some q \<Rightarrow> q)"

primrec send_all :: "'p network_switch \<Rightarrow> (string \<times> 'p) list \<Rightarrow> 'p network_switch" where
  "send_all sw [] = sw"
| "send_all sw (m # ms) = send_all (send_packet sw (fst m) (snd m)) ms"

primrec receive_n :: "'p network_switch \<Rightarrow> string \<Rightarrow> nat \<Rightarrow> 'p option list \<times> 'p network_switch" where
  "receive_n sw device_id 0 = ([], sw)"
| "receive_n sw device_id (Suc n) =
     (let (r, sw') = receive_packet sw device_id;
          (rs, sw'') = receive_n sw' device_id n
      in (r # rs, sw''))"

definition empty_switch :: "'p network_switch" where
  "empty_switch = \<lparr>queues = Map.empty\<rparr>"

section \<open>\<^verbatim>\<open>Router\<close>\<close>

text \<open>A packet dictionary, with its keys \<^verbatim>\<open>'source'\<close> and \<^verbatim>\<open>'type'\<close>.\<close>

record packet =
  packet_source :: pyval
  packet_type :: string

text \<open>
  A log entry is the string \<^verbatim>\<open>[HH:MM:SS] [hostname] message\<close>. It is kept as its three
  parts, and the message as its format with the values that fill it:
  \<^verbatim>\<open>Thread started. Neighbors: ...\<close>, \<^verbatim>\<open>Received '...' from ...\<close>,
  \<^verbatim>\<open>Sent 'OSPF_HELLO' to ...\<close> and \<^verbatim>\<open>Thread finished.\<close>
\<close>

datatype message =
  Thread_started "string list"
| Received string pyval
| Sent_OSPF_HELLO string
| Thread_finished

record log_entry =
  stamp :: string
  host :: pyval
  text_of :: message

text \<open>
  The clock of the machine, as the thread sees it: \<open>time c k\<close> and \<open>strftime c k\<close> are
  what \<^verbatim>\<open>time.time()\<close> and \<^verbatim>\<open>time.strftime('%H:%M:%S')\<close> return at the \<open>k\<close>-th reading of
  the clock by this thread. The seconds are real numbers here and floating-point
  numbers in the program, so the test of line 106 can differ when the difference of two
  readings is within rounding of 2.
\<close>

record clock =
  time :: "nat \<Rightarrow> real"
  strftime :: "nat \<Rightarrow> string"

text \<open>
  The router object and the state of its thread. The first five fields are the
  attributes that \<^verbatim>\<open>__init__\<close> sets (\<^verbatim>\<open>self.network_switch\<close> refers to the switch shared by
  all routers, which every function below takes and returns beside the router);
  \<open>last_hello_time\<close> is the local variable of \<^verbatim>\<open>run\<close>; \<open>alive\<close> is what \<^verbatim>\<open>is_alive()\<close>
  returns. Two fields are history kept for the statements, and no function reads them
  to decide anything but the index of the next clock reading: \<open>clock_reads\<close> counts the
  readings of the clock, and \<open>sent\<close> lists the calls of \<^verbatim>\<open>send_packet\<close> the router has made.
\<close>

record router =
  device_id :: string
  hostname :: pyval
  neighbors :: "string list"
  log_entries :: "log_entry list"
  is_running :: bool
  last_hello_time :: real
  alive :: bool
  clock_reads :: nat
  sent :: "(string \<times> packet) list"

text \<open>Lines 87 to 92: the loop over the links.\<close>

primrec find_neighbors :: "string \<Rightarrow> link list \<Rightarrow> string list \<Rightarrow> string list" where
  "find_neighbors self_id [] acc = acc"
| "find_neighbors self_id (l # links) acc =
     find_neighbors self_id links
       (if from_device l = self_id then acc @ [to_device l]
        else if to_device l = self_id then acc @ [from_device l]
        else acc)"

text \<open>\<^verbatim>\<open>Router.__init__\<close>; \<^verbatim>\<open>config_data.get('hostname', device_id)\<close> is the value under the key when the key is present.\<close>

definition Router_init :: "string \<Rightarrow> device_details \<Rightarrow> link list \<Rightarrow> router" where
  "Router_init dev_id config_data links =
     \<lparr>device_id = dev_id,
      hostname = (case dd_hostname config_data of None \<Rightarrow> PyStr dev_id | Some v \<Rightarrow> v),
      neighbors = find_neighbors dev_id links [],
      log_entries = [],
      is_running = True,
      last_hello_time = 0,
      alive = False,
      clock_reads = 0,
      sent = []\<rparr>"

text \<open>\<^verbatim>\<open>log_message\<close>; the \<^verbatim>\<open>print\<close> is left out.\<close>

definition log_message :: "clock \<Rightarrow> message \<Rightarrow> router \<Rightarrow> router" where
  "log_message c m r =
     r\<lparr>log_entries := log_entries r @
          [\<lparr>stamp = strftime c (clock_reads r), host = hostname r, text_of = m\<rparr>],
       clock_reads := Suc (clock_reads r)\<rparr>"

text \<open>
  Lines 100 to 102. A packet dictionary has two keys, so \<^verbatim>\<open>if packet:\<close> holds exactly
  when a packet was returned.
\<close>

definition receive_logic :: "clock \<Rightarrow> router \<times> packet network_switch \<Rightarrow> router \<times> packet network_switch" where
  "receive_logic c state =
     (let (p, sw) = receive_packet (snd state) (device_id (fst state))
      in case p of
           None \<Rightarrow> (fst state, sw)
         | Some pk \<Rightarrow> (log_message c (Received (packet_type pk) (packet_source pk)) (fst state), sw))"

text \<open>Lines 107 to 110: the loop over the neighbors.\<close>

primrec send_hellos ::
  "clock \<Rightarrow> string list \<Rightarrow> router \<times> packet network_switch \<Rightarrow> router \<times> packet network_switch" where
  "send_hellos c [] state = state"
| "send_hellos c (neighbor # rest) state =
     (let r = fst state;
          hello_packet = \<lparr>packet_source = hostname r, packet_type = ''OSPF_HELLO''\<rparr>;
          sw = send_packet (snd state) neighbor hello_packet;
          r1 = r\<lparr>sent := sent r @ [(neighbor, hello_packet)]\<rparr>
      in send_hellos c rest (log_message c (Sent_OSPF_HELLO neighbor) r1, sw))"

text \<open>Lines 106 to 111. Each \<^verbatim>\<open>time.time()\<close> is one reading of the clock.\<close>

definition send_logic :: "clock \<Rightarrow> router \<times> packet network_switch \<Rightarrow> router \<times> packet network_switch" where
  "send_logic c state =
     (let r = fst state;
          now = time c (clock_reads r);
          r1 = r\<lparr>clock_reads := Suc (clock_reads r)\<rparr>
      in if 2 < now - last_hello_time r1
         then (let (r2, sw2) = send_hellos c (neighbors r1) (r1, snd state)
               in (r2\<lparr>last_hello_time := time c (clock_reads r2),
                       clock_reads := Suc (clock_reads r2)\<rparr>, sw2))
         else (r1, snd state))"

text \<open>One pass through the body of the \<^verbatim>\<open>while\<close> loop; \<^verbatim>\<open>time.sleep(0.1)\<close> changes nothing.\<close>

definition run_iteration :: "clock \<Rightarrow> router \<times> packet network_switch \<Rightarrow> router \<times> packet network_switch" where
  "run_iteration c state = send_logic c (receive_logic c state)"

text \<open>
  The loop \<^verbatim>\<open>while self.is_running\<close>, as one thread sees it. The loop ends when the
  controller has cleared the flag, so a run is given by what happens before that: the
  list \<open>others\<close> has one entry for each pass through the body, and the entry is what the
  other threads did to the switch since the pass before. When the list is used up the
  controller clears the flag and the loop is left.
\<close>

primrec run_loop ::
  "clock \<Rightarrow> (packet network_switch \<Rightarrow> packet network_switch) list
     \<Rightarrow> router \<times> packet network_switch \<Rightarrow> router \<times> packet network_switch" where
  "run_loop c [] state = ((fst state)\<lparr>is_running := False\<rparr>, snd state)"
| "run_loop c (other # others) state =
     (if is_running (fst state)
      then run_loop c others (run_iteration c (fst state, other (snd state)))
      else state)"

text \<open>\<^verbatim>\<open>Router.run\<close>: lines 95 and 96, the loop, and line 115.\<close>

definition run_begin :: "clock \<Rightarrow> router \<Rightarrow> router" where
  "run_begin c r = (log_message c (Thread_started (neighbors r)) r)\<lparr>last_hello_time := 0\<rparr>"

definition run_end :: "clock \<Rightarrow> router \<Rightarrow> router" where
  "run_end c r = log_message c Thread_finished r"

definition run ::
  "clock \<Rightarrow> (packet network_switch \<Rightarrow> packet network_switch) list
     \<Rightarrow> router \<times> packet network_switch \<Rightarrow> router \<times> packet network_switch" where
  "run c others state =
     (let (r, sw) = run_loop c others (run_begin c (fst state), snd state)
      in (run_end c r, sw))"

text \<open>For the statements: the entries a router has logged since it was in state \<open>r\<close>.\<close>

definition logged_since :: "router \<Rightarrow> router \<Rightarrow> message list" where
  "logged_since r r' = map text_of (drop (length (log_entries r)) (log_entries r'))"



section \<open>The simulation, option 2 of \<^verbatim>\<open>main\<close>\<close>

text \<open>The variables of \<^verbatim>\<open>main\<close> that the menu loop carries from one choice to the next.\<close>

record controller =
  network_devices_data :: "(string \<times> device_details) list"
  topology :: "link list"
  router_threads :: "router list"
  network_switch :: "packet network_switch"

datatype outcome = Busy | Completed

text \<open>
  The threads between \<^verbatim>\<open>start()\<close> and the end of \<^verbatim>\<open>time.sleep(10)\<close>: the schedule names,
  pass by pass, the thread that runs the body of its loop next. The thread at position
  \<open>i\<close> reads the clock \<open>clocks i\<close>.
\<close>

primrec simulate ::
  "(nat \<Rightarrow> clock) \<Rightarrow> nat list \<Rightarrow> router list \<times> packet network_switch
     \<Rightarrow> router list \<times> packet network_switch" where
  "simulate clocks [] state = state"
| "simulate clocks (i # schedule) state =
     simulate clocks schedule
       (if i < length (fst state)
        then (let (r, sw) = run_iteration (clocks i) (fst state ! i, snd state)
              in ((fst state)[i := r], sw))
        else state)"

text \<open>
  Lines 150 to 169. A thread that is started logs its first entry, the threads run as
  the schedule says, the flags are cleared, and \<^verbatim>\<open>join\<close> returns for each thread once it
  has left the loop and logged its last entry.
\<close>

definition start_simulation ::
  "(nat \<Rightarrow> clock) \<Rightarrow> nat list \<Rightarrow> controller \<Rightarrow> outcome \<times> controller" where
  "start_simulation clocks schedule ctl =
     (if list_ex alive (router_threads ctl) then (Busy, ctl)
      else
        (let configs = filter (\<lambda>dev. CHR ''R'' \<in> set (fst dev)) (network_devices_data ctl);
             routers = map (\<lambda>dev. Router_init (fst dev) (snd dev) (topology ctl)) configs;
             started = map (\<lambda>(i, r). run_begin (clocks i) (r\<lparr>alive := True\<rparr>))
                         (zip [0 ..< length routers] routers);
             (running, sw) = simulate clocks schedule (started, network_switch ctl);
             stopped = map (\<lambda>r. r\<lparr>is_running := False\<rparr>) running;
             joined = map (\<lambda>(i, r). (run_end (clocks i) r)\<lparr>alive := False\<rparr>)
                        (zip [0 ..< length stopped] stopped)
         in (Completed, ctl\<lparr>router_threads := joined, network_switch := sw\<rparr>)))"

subsection \<open>Concrete routers\<close>

text \<open>The dictionary of line 108.\<close>

definition hello_from :: "router \<Rightarrow> packet" where
  "hello_from r = \<lparr>packet_source = hostname r, packet_type = ''OSPF_HELLO''\<rparr>"

text \<open>
  For concrete runs: a clock that shows 100 seconds and advances one second with each
  reading, three links of which two join \<^verbatim>\<open>R1\<close> and \<^verbatim>\<open>R2\<close>, and the router of \<^verbatim>\<open>R1\<close>.
\<close>

definition example_clock :: clock where
  "example_clock = \<lparr>time = (\<lambda>k. 100 + real k), strftime = (\<lambda>k. ''12:00:00'')\<rparr>"

definition three_links :: "link list" where
  "three_links =
     [link_between ''R1'' ''Gi0/1'' ''R2'' ''Gi0/1'',
      link_between ''R3'' ''Gi0/0'' ''R1'' ''Gi0/0'',
      link_between ''R1'' ''Gi0/2'' ''R2'' ''Gi0/2'']"

definition router1 :: router where
  "router1 = Router_init ''R1'' (device_with (PyStr ''Router1'') []) three_links"

text \<open>The router of a device that no link of \<open>three_links\<close> touches.\<close>

definition router9 :: router where
  "router9 = Router_init ''R9'' (device_with (PyStr ''Router9'') []) three_links"

text \<open>
  A controller whose one router thread is alive, and a configuration file without a
  hostname line.
\<close>

definition busy_controller :: controller where
  "busy_controller =
     \<lparr>network_devices_data = two_routers,
      topology = [link_between ''R1'' ''Gi0/1'' ''R2'' ''Gi0/1''],
      router_threads = [router1\<lparr>alive := True\<rparr>],
      network_switch = empty_switch\<rparr>"

definition no_hostname_lines :: "string list" where
  "no_hostname_lines = [''interface Gi0/1'', '' ip address 10.0.0.1 255.255.255.252'']"

section \<open>Topology inference\<close>

lemma for_each_appends:
  assumes "\<And>x s s'. x \<in> set xs \<Longrightarrow> body x s = Inr s' \<Longrightarrow> s' = s @ g x"
    and "for_each body xs s = Inr s'"
  shows "s' = s @ concat (map g xs)"
  using assms
proof (induction xs arbitrary: s)
  case Nil
  then show ?case by simp
next
  case (Cons x xs)
  from Cons.prems(2) obtain s1 where b: "body x s = Inr s1" and r: "for_each body xs s1 = Inr s'"
    by (auto split: sum.splits)
  from Cons.prems(1)[OF _ b] have s1: "s1 = s @ g x" by simp
  have "s' = s1 @ concat (map g xs)"
    using Cons.IH[OF _ r] Cons.prems(1) by simp
  with s1 show ?case by simp
qed

lemma for_each_total:
  assumes "\<And>x s. x \<in> set xs \<Longrightarrow> body x s = Inr (s @ g x)"
  shows "for_each body xs s = Inr (s @ concat (map g xs))"
  using assms
  by (induction xs arbitrary: s) simp_all

lemma compare_interfaces_appends:
  "compare_interfaces network d1 int1 d2 int2 links = Inr links' \<Longrightarrow>
     links' = links @ emitted network d1 int1 d2 int2"
  by (auto simp: compare_interfaces_def emitted_def same_network_def network_of_def link_between_def
      split: option.splits if_splits)

lemma compare_interfaces_total:
  "ip_address (snd int1) = None \<or> subnet_mask (snd int1) \<noteq> None \<Longrightarrow>
   ip_address (snd int2) = None \<or> subnet_mask (snd int2) \<noteq> None \<Longrightarrow>
   compare_interfaces network d1 int1 d2 int2 links = Inr (links @ emitted network d1 int1 d2 int2)"
  by (auto simp: compare_interfaces_def emitted_def same_network_def network_of_def link_between_def
      split: option.splits if_splits)

lemma map_of_nth:
  "distinct (map fst devs) \<Longrightarrow> i < length devs \<Longrightarrow> map_of devs (fst (devs ! i)) = Some (snd (devs ! i))"
  by (simp add: map_of_eq_Some_iff)

lemma compare_devices_appends:
  assumes "distinct (map fst devs)" "i < length devs" "j < length devs"
    and "compare_devices network devs (map fst devs ! i) (map fst devs ! j) links = Inr links'"
  shows "links' = links @ pair_links network (devs ! i) (devs ! j)"
proof -
  have r: "for_each (\<lambda>int1. for_each (compare_interfaces network (fst (devs ! i)) int1 (fst (devs ! j)))
              (get_interfaces (snd (devs ! j)))) (get_interfaces (snd (devs ! i))) links = Inr links'"
    using assms by (simp add: compare_devices_def map_of_nth)
  show ?thesis
    unfolding pair_links_def
    by (rule for_each_appends[OF _ r], rule for_each_appends, erule compare_interfaces_appends)
qed

lemma build_topology_appends:
  assumes "distinct (map fst devs)" and "build_topology network devs = Inr links"
  shows "links = all_links network devs"
proof -
  have "links = [] @ all_links network devs"
    unfolding all_links_def
  proof (rule for_each_appends)
    show "for_each (\<lambda>i. for_each (\<lambda>j. compare_devices network devs (map fst devs ! i) (map fst devs ! j))
            [i + 1 ..< length devs]) [0 ..< length devs] [] = Inr links"
      using assms(2) by (simp add: build_topology_def Let_def)
  next
    fix i s s'
    assume i: "i \<in> set [0 ..< length devs]"
      and r: "for_each (\<lambda>j. compare_devices network devs (map fst devs ! i) (map fst devs ! j))
            [i + 1 ..< length devs] s = Inr s'"
    show "s' = s @ concat (map (\<lambda>j. pair_links network (devs ! i) (devs ! j)) [i + 1 ..< length devs])"
    proof (rule for_each_appends[OF _ r])
      fix j t t'
      assume "j \<in> set [i + 1 ..< length devs]"
        and "compare_devices network devs (map fst devs ! i) (map fst devs ! j) t = Inr t'"
      then show "t' = t @ pair_links network (devs ! i) (devs ! j)"
        using compare_devices_appends[OF assms(1), of i j network t t'] i by simp
    qed
  qed
  then show ?thesis by simp
qed


lemma compare_devices_total:
  assumes "distinct (map fst devs)" "i < length devs" "j < length devs" "masks_present devs"
  shows "compare_devices network devs (map fst devs ! i) (map fst devs ! j) links =
           Inr (links @ pair_links network (devs ! i) (devs ! j))"
proof -
  have m: "\<And>k int. k < length devs \<Longrightarrow> int \<in> set (get_interfaces (snd (devs ! k))) \<Longrightarrow>
             ip_address (snd int) = None \<or> subnet_mask (snd int) \<noteq> None"
    using assms(4) by (auto simp: masks_present_def list_all_iff)
  have "for_each (\<lambda>int1. for_each (compare_interfaces network (fst (devs ! i)) int1 (fst (devs ! j)))
              (get_interfaces (snd (devs ! j)))) (get_interfaces (snd (devs ! i))) links
          = Inr (links @ pair_links network (devs ! i) (devs ! j))"
    unfolding pair_links_def
    by (rule for_each_total, rule for_each_total, rule compare_interfaces_total)
       (use m assms(2,3) in blast)+
  then show ?thesis
    using assms(1,2,3) by (simp add: compare_devices_def map_of_nth)
qed

lemma build_topology_total:
  assumes "distinct (map fst devs)" and "masks_present devs"
  shows "build_topology network devs = Inr (all_links network devs)"
proof -
  have "for_each (\<lambda>i. for_each (\<lambda>j. compare_devices network devs (map fst devs ! i) (map fst devs ! j))
            [i + 1 ..< length devs]) [0 ..< length devs] [] = Inr ([] @ all_links network devs)"
    unfolding all_links_def
    by (rule for_each_total, rule for_each_total, rule compare_devices_total[OF assms(1) _ _ assms(2)])
       simp_all
  then show ?thesis by (simp add: build_topology_def Let_def)
qed

lemma distinct_concat_tagged:
  assumes "distinct (map h xs)"
    and "\<And>x. x \<in> set xs \<Longrightarrow> distinct (f x)"
    and "\<And>x y. x \<in> set xs \<Longrightarrow> y \<in> set (f x) \<Longrightarrow> g y = h x"
  shows "distinct (concat (map f xs))"
  using assms
proof (induction xs)
  case Nil
  then show ?case by simp
next
  case (Cons x xs)
  have "set (f x) \<inter> set (concat (map f xs)) = {}"
  proof (rule ccontr)
    assume "set (f x) \<inter> set (concat (map f xs)) \<noteq> {}"
    then obtain y x' where y: "y \<in> set (f x)" and x': "x' \<in> set xs" and y': "y \<in> set (f x')"
      by auto
    have "h x = h x'" using Cons.prems(3)[of x y] Cons.prems(3)[of x' y] y x' y' by simp
    with x' Cons.prems(1) show False by force
  qed
  moreover have "distinct (concat (map f xs))"
    using Cons by simp
  ultimately show ?case using Cons.prems(2) by simp
qed

lemma distinct_pair_links:
  assumes "distinct (map fst (get_interfaces (snd dev1)))"
    and "distinct (map fst (get_interfaces (snd dev2)))"
  shows "distinct (pair_links network dev1 dev2)"
  unfolding pair_links_def
proof (rule distinct_concat_tagged[where h = fst and g = from_interface])
  show "distinct (map fst (get_interfaces (snd dev1)))" by (rule assms(1))
next
  fix int1
  show "distinct (concat (map (emitted network (fst dev1) int1 (fst dev2)) (get_interfaces (snd dev2))))"
    by (rule distinct_concat_tagged[where h = fst and g = to_interface, OF assms(2)])
       (auto simp: emitted_def link_between_def split: if_splits)
next
  fix int1 y
  assume "y \<in> set (concat (map (emitted network (fst dev1) int1 (fst dev2)) (get_interfaces (snd dev2))))"
  then show "from_interface y = fst int1"
    by (auto simp: emitted_def link_between_def split: if_splits)
qed

lemma emitted_iff:
  "l \<in> set (emitted network d1 int1 d2 int2) \<longleftrightarrow>
     same_network network (snd int1) (snd int2) \<and> l = link_between d1 (fst int1) d2 (fst int2)"
  by (auto simp: emitted_def)

lemma pair_links_iff:
  "l \<in> set (pair_links network dev1 dev2) \<longleftrightarrow>
     (\<exists>int1 \<in> set (get_interfaces (snd dev1)). \<exists>int2 \<in> set (get_interfaces (snd dev2)).
        same_network network (snd int1) (snd int2) \<and>
        l = link_between (fst dev1) (fst int1) (fst dev2) (fst int2))"
  unfolding pair_links_def by (simp add: emitted_iff)

lemma pair_links_devices:
  assumes "l \<in> set (pair_links network dev1 dev2)"
  shows "from_device l = fst dev1 \<and> to_device l = fst dev2"
proof -
  from assms obtain int1 int2 where "l = link_between (fst dev1) (fst int1) (fst dev2) (fst int2)"
    unfolding pair_links_iff by auto
  then show ?thesis by (simp add: link_between_def)
qed

lemma distinct_ids_upt:
  assumes "distinct (map fst devs)"
  shows "distinct (map (\<lambda>j. fst (devs ! j)) [k ..< length devs])"
proof -
  have "inj_on (\<lambda>j. fst (devs ! j)) {k ..< length devs}"
  proof (rule inj_onI)
    fix a b assume "a \<in> {k ..< length devs}" "b \<in> {k ..< length devs}" "fst (devs ! a) = fst (devs ! b)"
    then show "a = b"
      using assms nth_eq_iff_index_eq[of "map fst devs" a b] by simp
  qed
  then show ?thesis by (simp add: distinct_map)
qed

lemma distinct_all_links:
  assumes "distinct (map fst devs)"
    and "list_all (\<lambda>dev. distinct (map fst (get_interfaces (snd dev)))) devs"
  shows "distinct (all_links network devs)"
  unfolding all_links_def
proof (rule distinct_concat_tagged[where h = "\<lambda>i. fst (devs ! i)" and g = from_device])
  show "distinct (map (\<lambda>i. fst (devs ! i)) [0 ..< length devs])"
    by (rule distinct_ids_upt[OF assms(1)])
next
  fix i assume "i \<in> set [0 ..< length devs]"
  then have i: "i < length devs" by simp
  show "distinct (concat (map (\<lambda>j. pair_links network (devs ! i) (devs ! j)) [i + 1 ..< length devs]))"
  proof (rule distinct_concat_tagged[where h = "\<lambda>j. fst (devs ! j)" and g = to_device])
    show "distinct (map (\<lambda>j. fst (devs ! j)) [i + 1 ..< length devs])"
      by (rule distinct_ids_upt[OF assms(1)])
  next
    fix j assume "j \<in> set [i + 1 ..< length devs]"
    then have "j < length devs" by simp
    with i assms(2) show "distinct (pair_links network (devs ! i) (devs ! j))"
      by (intro distinct_pair_links) (simp_all add: list_all_length)
  next
    fix j y assume "y \<in> set (pair_links network (devs ! i) (devs ! j))"
    then show "to_device y = fst (devs ! j)" by (simp add: pair_links_devices[of y network "devs ! i" "devs ! j"])
  qed
next
  fix i y
  assume "y \<in> set (concat (map (\<lambda>j. pair_links network (devs ! i) (devs ! j)) [i + 1 ..< length devs]))"
  then obtain j where "y \<in> set (pair_links network (devs ! i) (devs ! j))"
    unfolding set_concat set_map by blast
  then show "from_device y = fst (devs ! i)"
    by (simp add: pair_links_devices[of y network "devs ! i" "devs ! j"])
qed


lemma all_links_iff:
  "l \<in> set (all_links network devs) \<longleftrightarrow>
     (\<exists>i j. i < j \<and> j < length devs \<and> l \<in> set (pair_links network (devs ! i) (devs ! j)))"
proof -
  have "l \<in> set (all_links network devs) \<longleftrightarrow>
          (\<exists>i < length devs. \<exists>j. Suc i \<le> j \<and> j < length devs \<and>
             l \<in> set (pair_links network (devs ! i) (devs ! j)))"
    unfolding all_links_def by (simp add: Bex_def)
  also have "\<dots> \<longleftrightarrow> (\<exists>i j. i < j \<and> j < length devs \<and>
             l \<in> set (pair_links network (devs ! i) (devs ! j)))"
  proof
    assume "\<exists>i < length devs. \<exists>j. Suc i \<le> j \<and> j < length devs \<and>
             l \<in> set (pair_links network (devs ! i) (devs ! j))"
    then obtain i j where "Suc i \<le> j" "j < length devs"
      "l \<in> set (pair_links network (devs ! i) (devs ! j))" by blast
    then have "i < j \<and> j < length devs \<and> l \<in> set (pair_links network (devs ! i) (devs ! j))"
      by simp
    then show "\<exists>i j. i < j \<and> j < length devs \<and>
             l \<in> set (pair_links network (devs ! i) (devs ! j))" by blast
  next
    assume "\<exists>i j. i < j \<and> j < length devs \<and>
             l \<in> set (pair_links network (devs ! i) (devs ! j))"
    then obtain i j where "i < j" "j < length devs"
      "l \<in> set (pair_links network (devs ! i) (devs ! j))" by blast
    then have "i < length devs \<and> Suc i \<le> j \<and> j < length devs \<and>
             l \<in> set (pair_links network (devs ! i) (devs ! j))"
      by simp
    then show "\<exists>i < length devs. \<exists>j. Suc i \<le> j \<and> j < length devs \<and>
             l \<in> set (pair_links network (devs ! i) (devs ! j))" by blast
  qed
  finally show ?thesis .
qed

lemma count_list_distinct:
  "distinct xs \<Longrightarrow> count_list xs x = (if x \<in> set xs then 1 else 0)"
  by (induction xs) auto

lemma link_between_eq:
  "link_between a b c d = link_between a' b' c' d' \<longleftrightarrow> a = a' \<and> b = b' \<and> c = c' \<and> d = d'"
  by (simp add: link_between_def)

lemma same_network_sym: "same_network network a b = same_network network b a"
  by (auto simp: same_network_def split: option.splits)

lemma distinct_fst_index:
  assumes "distinct (map fst devs)" "i < length devs" "j < length devs" "fst (devs ! i) = fst (devs ! j)"
  shows "i = j"
  using assms nth_eq_iff_index_eq[of "map fst devs" i j] by simp

lemma same_key_same_entry:
  assumes "distinct (map fst xs)" "a \<in> set xs" "b \<in> set xs" "fst a = fst b"
  shows "a = b"
proof -
  have "(fst a, snd a) \<in> set xs" using assms(2) by simp
  moreover have "(fst a, snd b) \<in> set xs" using assms(3) by (simp add: assms(4))
  ultimately have "snd a = snd b" using eq_key_imp_eq_value[OF assms(1)] by blast
  with assms(4) show ?thesis by (simp add: prod_eq_iff)
qed

lemma all_links_forward:
  assumes u: "unique_keys devs" and ij: "i < j" "j < length devs"
    and i1: "int1 \<in> set (get_interfaces (snd (devs ! i)))"
    and i2: "int2 \<in> set (get_interfaces (snd (devs ! j)))"
  shows "link_between (fst (devs ! i)) (fst int1) (fst (devs ! j)) (fst int2) \<in> set (all_links network devs)
           \<longleftrightarrow> same_network network (snd int1) (snd int2)"
proof
  assume "same_network network (snd int1) (snd int2)"
  then have "link_between (fst (devs ! i)) (fst int1) (fst (devs ! j)) (fst int2)
               \<in> set (pair_links network (devs ! i) (devs ! j))"
    unfolding pair_links_iff using i1 i2 by blast
  then show "link_between (fst (devs ! i)) (fst int1) (fst (devs ! j)) (fst int2) \<in> set (all_links network devs)"
    unfolding all_links_iff using ij by blast
next
  assume "link_between (fst (devs ! i)) (fst int1) (fst (devs ! j)) (fst int2) \<in> set (all_links network devs)"
  then obtain i' j' where ij': "i' < j'" "j' < length devs"
    and m: "link_between (fst (devs ! i)) (fst int1) (fst (devs ! j)) (fst int2)
              \<in> set (pair_links network (devs ! i') (devs ! j'))"
    unfolding all_links_iff by blast
  from m obtain a b where a: "a \<in> set (get_interfaces (snd (devs ! i')))"
    and b: "b \<in> set (get_interfaces (snd (devs ! j')))"
    and s: "same_network network (snd a) (snd b)"
    and e: "link_between (fst (devs ! i)) (fst int1) (fst (devs ! j)) (fst int2)
              = link_between (fst (devs ! i')) (fst a) (fst (devs ! j')) (fst b)"
    unfolding pair_links_iff by blast
  from e have e4: "fst (devs ! i) = fst (devs ! i')" "fst int1 = fst a"
    "fst (devs ! j) = fst (devs ! j')" "fst int2 = fst b"
    by (simp_all add: link_between_eq)
  have d: "distinct (map fst devs)" using u by (simp add: unique_keys_def)
  have "i = i'" using distinct_fst_index[OF d _ _ e4(1)] ij ij' by simp
  moreover have "j = j'" using distinct_fst_index[OF d _ _ e4(3)] ij ij' by simp
  ultimately have a': "a \<in> set (get_interfaces (snd (devs ! i)))"
    and b': "b \<in> set (get_interfaces (snd (devs ! j)))" using a b by simp_all
  have di: "distinct (map fst (get_interfaces (snd (devs ! i))))"
    and dj: "distinct (map fst (get_interfaces (snd (devs ! j))))"
    using u ij by (simp_all add: unique_keys_def list_all_length)
  have "int1 = a" using di i1 a' e4(2) by (rule same_key_same_entry)
  moreover have "int2 = b" using dj i2 b' e4(4) by (rule same_key_same_entry)
  ultimately show "same_network network (snd int1) (snd int2)" using s by simp
qed

lemma all_links_backward:
  assumes u: "unique_keys devs" and ij: "i < j" "j < length devs"
  shows "link_between (fst (devs ! j)) n2 (fst (devs ! i)) n1 \<notin> set (all_links network devs)"
proof
  assume "link_between (fst (devs ! j)) n2 (fst (devs ! i)) n1 \<in> set (all_links network devs)"
  then obtain i' j' where ij': "i' < j'" "j' < length devs"
    and m: "link_between (fst (devs ! j)) n2 (fst (devs ! i)) n1
              \<in> set (pair_links network (devs ! i') (devs ! j'))"
    unfolding all_links_iff by blast
  from pair_links_devices[OF m]
  have e: "fst (devs ! j) = fst (devs ! i')" "fst (devs ! i) = fst (devs ! j')"
    by (simp_all add: link_between_def)
  have d: "distinct (map fst devs)" using u by (simp add: unique_keys_def)
  have "j = i'" using distinct_fst_index[OF d _ _ e(1)] ij ij' by simp
  moreover have "i = j'" using distinct_fst_index[OF d _ _ e(2)] ij ij' by simp
  ultimately show False using ij ij' by simp
qed

lemma count_ordered:
  assumes u: "unique_keys devs" and ij: "i < j" "j < length devs"
    and i1: "int1 \<in> set (get_interfaces (snd (devs ! i)))"
    and i2: "int2 \<in> set (get_interfaces (snd (devs ! j)))"
  shows "count_list (all_links network devs)
             (link_between (fst (devs ! i)) (fst int1) (fst (devs ! j)) (fst int2))
         + count_list (all_links network devs)
             (link_between (fst (devs ! j)) (fst int2) (fst (devs ! i)) (fst int1))
         = (if same_network network (snd int1) (snd int2) then 1 else 0)"
proof -
  have d: "distinct (all_links network devs)"
    using u by (simp add: unique_keys_def distinct_all_links)
  show ?thesis
    using all_links_forward[OF u ij i1 i2, of network]
      all_links_backward[OF u ij, of "fst int2" "fst int1" network]
    by (simp add: count_list_distinct[OF d])
qed

text \<open>
  What \<^verbatim>\<open>build_topology\<close> does on a mapping as \<^verbatim>\<open>load_configurations\<close> builds it (distinct
  device ids, distinct interface names within a device, a mask wherever there is an
  address): it returns, and for two different devices and one interface of each, the
  links of the result that connect these two interfaces, in either direction, number
  exactly one if both interfaces have an address and a mask that the library parses and
  the two networks are equal, and none otherwise.
\<close>

lemma build_topology_links:
  assumes u: "unique_keys devices_data" and m: "masks_present devices_data"
    and i: "i < length devices_data" and j: "j < length devices_data" and ij: "i \<noteq> j"
    and i1: "int1 \<in> set (get_interfaces (snd (devices_data ! i)))"
    and i2: "int2 \<in> set (get_interfaces (snd (devices_data ! j)))"
  shows "\<exists>links. build_topology network devices_data = Inr links \<and>
           count_list links
             (link_between (fst (devices_data ! i)) (fst int1) (fst (devices_data ! j)) (fst int2))
         + count_list links
             (link_between (fst (devices_data ! j)) (fst int2) (fst (devices_data ! i)) (fst int1))
         = (if same_network network (snd int1) (snd int2) then 1 else 0)"
proof -
  have b: "build_topology network devices_data = Inr (all_links network devices_data)"
    using u m by (simp add: unique_keys_def build_topology_total)
  have "count_list (all_links network devices_data)
             (link_between (fst (devices_data ! i)) (fst int1) (fst (devices_data ! j)) (fst int2))
         + count_list (all_links network devices_data)
             (link_between (fst (devices_data ! j)) (fst int2) (fst (devices_data ! i)) (fst int1))
         = (if same_network network (snd int1) (snd int2) then 1 else 0)"
  proof (cases "i < j")
    case True
    show ?thesis by (rule count_ordered[OF u True j i1 i2])
  next
    case False
    then have ji: "j < i" using ij by simp
    have "count_list (all_links network devices_data)
             (link_between (fst (devices_data ! j)) (fst int2) (fst (devices_data ! i)) (fst int1))
         + count_list (all_links network devices_data)
             (link_between (fst (devices_data ! i)) (fst int1) (fst (devices_data ! j)) (fst int2))
         = (if same_network network (snd int2) (snd int1) then 1 else 0)"
      by (rule count_ordered[OF u ji i i2 i1])
    then show ?thesis
      by (simp only: add.commute same_network_sym[of network "snd int1" "snd int2"])
  qed
  with b show ?thesis by blast
qed

text \<open>
  Claim C8. For every mapping with distinct device ids and every parser of networks: no
  link of the list that \<^verbatim>\<open>build_topology\<close> returns has the same device at both ends.
\<close>

theorem build_topology_no_self_link:
  assumes "distinct (map fst devices_data)"
    and "build_topology network devices_data = Inr links"
    and "l \<in> set links"
  shows "from_device l \<noteq> to_device l"
proof
  assume e: "from_device l = to_device l"
  have "links = all_links network devices_data"
    using assms(1,2) by (rule build_topology_appends)
  with assms(3) have "l \<in> set (all_links network devices_data)" by simp
  then obtain i j where ij: "i < j" "j < length devices_data"
    and m: "l \<in> set (pair_links network (devices_data ! i) (devices_data ! j))"
    unfolding all_links_iff by blast
  from pair_links_devices[OF m] e have "fst (devices_data ! i) = fst (devices_data ! j)" by metis
  then have "i = j" using distinct_fst_index[OF assms(1)] ij by simp
  with ij show False by simp
qed

lemma build_topology_links_example:
  "unique_keys gaps_and_noise \<and> masks_present gaps_and_noise \<and>
   (\<exists>links. build_topology IPv4Interface_network gaps_and_noise = Inr links \<and>
      count_list links (link_between ''R1'' ''Gi0/1'' ''R2'' ''Gi0/1'')
      + count_list links (link_between ''R2'' ''Gi0/1'' ''R1'' ''Gi0/1'') = 1) \<and>
   (\<exists>links. build_topology IPv4Interface_network gaps_and_noise = Inr links \<and>
      count_list links (link_between ''R1'' ''Gi0/0'' ''R2'' ''Gi0/1'')
      + count_list links (link_between ''R2'' ''Gi0/1'' ''R1'' ''Gi0/0'') = 0) \<and>
   (\<exists>links. build_topology IPv4Interface_network gaps_and_noise = Inr links \<and>
      count_list links (link_between ''R2'' ''Gi0/0'' ''R1'' ''Gi0/1'')
      + count_list links (link_between ''R1'' ''Gi0/1'' ''R2'' ''Gi0/0'') = 0) \<and>
   (\<exists>links. build_topology IPv4Interface_network gaps_and_noise = Inr links \<and>
      count_list links (link_between ''R1'' ''Gi0/1'' ''R2'' ''Gi0/2'')
      + count_list links (link_between ''R2'' ''Gi0/2'' ''R1'' ''Gi0/1'') = 0)"
proof -
  have u: "unique_keys gaps_and_noise" and m: "masks_present gaps_and_noise"
    by code_simp+
  have d0: "gaps_and_noise ! 0 = (''R1'', device_with (PyStr ''Router1'')
         [(''Gi0/0'', \<lparr>description = Some ''uplink'', ip_address = None, subnet_mask = None\<rparr>),
          (''Gi0/1'', addressed ''10.0.0.1'' ''255.255.255.252'')])"
    and d1: "gaps_and_noise ! Suc 0 = (''R2'', device_with (PyStr ''Router2'')
         [(''Gi0/0'', addressed ''10.0.0.300'' ''255.255.255.252''),
          (''Gi0/1'', addressed ''10.0.0.2'' ''255.255.255.252''),
          (''Gi0/2'', addressed ''192.168.5.1'' ''255.255.255.0'')])"
    and len: "length gaps_and_noise = 2"
    by (simp_all add: gaps_and_noise_def)
  have ifs: "get_interfaces (device_with n xs) = xs" for n xs
    by (simp add: get_interfaces_def device_with_def)
  have s1: "same_network IPv4Interface_network (addressed ''10.0.0.1'' ''255.255.255.252'')
              (addressed ''10.0.0.2'' ''255.255.255.252'')"
    and s2: "\<not> same_network IPv4Interface_network
              \<lparr>description = Some ''uplink'', ip_address = None, subnet_mask = None\<rparr>
              (addressed ''10.0.0.2'' ''255.255.255.252'')"
    and s3: "\<not> same_network IPv4Interface_network (addressed ''10.0.0.300'' ''255.255.255.252'')
              (addressed ''10.0.0.1'' ''255.255.255.252'')"
    and s4: "\<not> same_network IPv4Interface_network (addressed ''10.0.0.1'' ''255.255.255.252'')
              (addressed ''192.168.5.1'' ''255.255.255.0'')"
    by code_simp+
  show ?thesis
    using u m
      build_topology_links [OF u m, of 0 1 "(''Gi0/1'', addressed ''10.0.0.1'' ''255.255.255.252'')"
        "(''Gi0/1'', addressed ''10.0.0.2'' ''255.255.255.252'')" IPv4Interface_network]
      build_topology_links [OF u m, of 0 1
        "(''Gi0/0'', \<lparr>description = Some ''uplink'', ip_address = None, subnet_mask = None\<rparr>)"
        "(''Gi0/1'', addressed ''10.0.0.2'' ''255.255.255.252'')" IPv4Interface_network]
      build_topology_links [OF u m, of 1 0 "(''Gi0/0'', addressed ''10.0.0.300'' ''255.255.255.252'')"
        "(''Gi0/1'', addressed ''10.0.0.1'' ''255.255.255.252'')" IPv4Interface_network]
      build_topology_links [OF u m, of 0 1 "(''Gi0/1'', addressed ''10.0.0.1'' ''255.255.255.252'')"
        "(''Gi0/2'', addressed ''192.168.5.1'' ''255.255.255.0'')" IPv4Interface_network]
    by (simp add: d0 d1 len ifs s1 s2 s3 s4)
qed

theorem build_topology_no_self_link_witness:
  "distinct (map fst two_routers) \<and>
   build_topology IPv4Interface_network two_routers = Inr [link_between ''R1'' ''Gi0/1'' ''R2'' ''Gi0/1''] \<and>
   from_device (link_between ''R1'' ''Gi0/1'' ''R2'' ''Gi0/1'')
     \<noteq> to_device (link_between ''R1'' ''Gi0/1'' ''R2'' ''Gi0/1'')"
proof -
  have d: "distinct (map fst two_routers)" by code_simp
  have b: "build_topology IPv4Interface_network two_routers
             = Inr [link_between ''R1'' ''Gi0/1'' ''R2'' ''Gi0/1'']" by code_simp
  show ?thesis
    using d b build_topology_no_self_link [OF d b, of "link_between ''R1'' ''Gi0/1'' ''R2'' ''Gi0/1''"]
    by simp
qed

text \<open>
  Claim C1 says, for every mapping, that two interfaces of different devices whose
  networks are equal get exactly one link. On a mapping with a mask wherever there is an
  address that is so (\<open>build_topology_links\<close> above). On \<open>mask_missing_beside_link\<close> the keys
  are unique and the interfaces \<^verbatim>\<open>Gi0/1\<close> of \<^verbatim>\<open>R1\<close> and \<^verbatim>\<open>R2\<close> are on the same network,
  but \<^verbatim>\<open>Gi0/0\<close> of \<^verbatim>\<open>R1\<close> has an address and no mask: the call raises \<^verbatim>\<open>KeyError\<close> at
  the first comparison and returns no link at all.
\<close>

theorem build_topology_loses_shared_network:
  "unique_keys mask_missing_beside_link \<and>
   same_network IPv4Interface_network
     (addressed ''10.0.0.1'' ''255.255.255.252'') (addressed ''10.0.0.2'' ''255.255.255.252'') \<and>
   build_topology IPv4Interface_network mask_missing_beside_link = Inl KeyError"
  by code_simp

text \<open>
  Claim C2 says that \<^verbatim>\<open>build_topology\<close> returns for every mapping. With a mask wherever
  there is an address it does (\<open>build_topology_total\<close> above, whatever the strings are).
  An interface with an address and no mask, compared with an interface that has an
  address, makes line 36 or 37 raise \<^verbatim>\<open>KeyError\<close>, for every parser of networks:
\<close>

theorem build_topology_raises_KeyError:
  "build_topology network mask_missing = Inl KeyError"
  by (simp add: build_topology_def mask_missing_def compare_devices_def compare_interfaces_def
      get_interfaces_def device_with_def addressed_def upt_rec)

section \<open>The switch: sending and receiving\<close>

lemma mailbox_send_packet:
  "mailbox (send_packet sw d p) k = (if k = d then mailbox sw d @ [p] else mailbox sw k)"
  by (simp add: send_packet_def queues_getitem_def mailbox_def split: option.splits)

text \<open>
  Claim C7. \<^verbatim>\<open>send_packet\<close> is a total function of the switch, the destination and the
  packet: it returns for every argument, and the switch it returns has the packet at the
  end of the destination's mailbox and every other mailbox as before. A destination
  without a mailbox gets one that holds just the packet.
\<close>

theorem send_packet_enqueues:
  "queues (send_packet sw d p) = (queues sw)(d \<mapsto> mailbox sw d @ [p])"
  by (simp add: send_packet_def queues_getitem_def mailbox_def split: option.splits)

theorem send_packet_enqueues_witness:
  "queues (empty_switch :: nat network_switch) ''R2'' = None \<and>
   queues (send_packet empty_switch ''R2'' (7 :: nat)) ''R2'' = Some [7] \<and>
   queues (send_packet (send_packet empty_switch ''R2'' (7 :: nat)) ''R2'' 8) ''R2'' = Some [7, 8] \<and>
   queues (send_packet empty_switch ''R2'' (7 :: nat)) ''R3'' = None"
  using send_packet_enqueues [of "empty_switch :: nat network_switch" "''R2''" 7]
    send_packet_enqueues [of "send_packet (empty_switch :: nat network_switch) ''R2'' 7" "''R2''" 8]
  by (simp add: mailbox_def empty_switch_def)

lemma fst_receive_packet:
  "fst (receive_packet sw d) = (case mailbox sw d of [] \<Rightarrow> None | p # ps \<Rightarrow> Some p)"
  by (simp add: receive_packet_def queues_getitem_def mailbox_def split: option.splits list.splits)

lemma mailbox_receive_packet:
  "mailbox (snd (receive_packet sw d)) k = (if k = d then tl (mailbox sw d) else mailbox sw k)"
  by (simp add: receive_packet_def queues_getitem_def mailbox_def split: option.splits list.splits)

lemma mailbox_send_all:
  "mailbox (send_all sw msgs) d = mailbox sw d @ map snd (filter (\<lambda>m. fst m = d) msgs)"
  by (induction msgs arbitrary: sw) (simp_all add: mailbox_send_packet)

lemma fst_receive_n:
  "fst (receive_n sw d n) =
     map Some (take n (mailbox sw d)) @ replicate (n - length (mailbox sw d)) None"
proof (induction n arbitrary: sw)
  case 0
  then show ?case by simp
next
  case (Suc n)
  show ?case
  proof (cases "mailbox sw d")
    case Nil
    then show ?thesis
      using Suc[of "snd (receive_packet sw d)"]
      by (simp add: split_beta fst_receive_packet mailbox_receive_packet)
  next
    case (Cons p ps)
    then show ?thesis
      using Suc[of "snd (receive_packet sw d)"]
      by (simp add: split_beta fst_receive_packet mailbox_receive_packet)
  qed
qed

text \<open>
  Claim C4. For every switch and device id, \<^verbatim>\<open>receive_packet\<close> returns the oldest packet of
  that id's mailbox and removes it, or returns \<^verbatim>\<open>None\<close> at once when the mailbox is
  empty or was never referenced. After any sequence of sends, to this and to other
  destinations, \<open>n\<close> receives in a row return the packets that were in the mailbox and
  then those sent to it, in the order of their arrival, and \<^verbatim>\<open>None\<close> from then on.
\<close>

theorem receive_packet_fifo:
  "fst (receive_packet sw d) = (case mailbox sw d of [] \<Rightarrow> None | p # ps \<Rightarrow> Some p) \<and>
   mailbox (snd (receive_packet sw d)) d = tl (mailbox sw d) \<and>
   fst (receive_n (send_all sw msgs) d n) =
     map Some (take n (mailbox sw d @ map snd (filter (\<lambda>m. fst m = d) msgs)))
     @ replicate (n - length (mailbox sw d @ map snd (filter (\<lambda>m. fst m = d) msgs))) None"
  by (simp add: fst_receive_packet mailbox_receive_packet fst_receive_n mailbox_send_all)

theorem receive_packet_fifo_witness:
  "fst (receive_packet (empty_switch :: nat network_switch) ''R1'') = None \<and>
   fst (receive_n (send_all (empty_switch :: nat network_switch)
          [(''R1'', 10), (''R2'', 20), (''R1'', 11), (''R1'', 12), (''R2'', 21)]) ''R1'' 4)
     = [Some 10, Some 11, Some 12, None]"
  using receive_packet_fifo [of "empty_switch :: nat network_switch" "''R1''"
      "[(''R1'', 10), (''R2'', 20), (''R1'', 11), (''R1'', 12), (''R2'', 21)]" 4]
  by (simp add: mailbox_def empty_switch_def)

section \<open>The router: hello broadcasts\<close>

lemma send_hellos_frame:
  "neighbors (fst (send_hellos c ns (r, sw))) = neighbors r \<and>
   hostname (fst (send_hellos c ns (r, sw))) = hostname r \<and>
   device_id (fst (send_hellos c ns (r, sw))) = device_id r \<and>
   is_running (fst (send_hellos c ns (r, sw))) = is_running r \<and>
   last_hello_time (fst (send_hellos c ns (r, sw))) = last_hello_time r \<and>
   alive (fst (send_hellos c ns (r, sw))) = alive r \<and>
   clock_reads (fst (send_hellos c ns (r, sw))) = clock_reads r + length ns"
  by (induction ns arbitrary: r sw) (simp_all add: log_message_def Let_def)







lemma send_logic_not_due:
  assumes "\<not> 2 < time c (clock_reads r) - last_hello_time r"
  shows "send_logic c (r, sw) = (r\<lparr>clock_reads := Suc (clock_reads r)\<rparr>, sw)"
  using assms by (simp add: send_logic_def Let_def)



lemma router1_simps:
  "neighbors router1 = [''R2'', ''R3'', ''R2'']" "hostname router1 = PyStr ''Router1''"
  "sent router1 = []" "log_entries router1 = []" "clock_reads router1 = 0"
  "last_hello_time router1 = 0" "device_id router1 = ''R1''" "is_running router1"
  by (simp_all add: router1_def Router_init_def three_links_def link_between_def device_with_def)








section \<open>The router: a whole run\<close>

lemma log_message_frame:
  "neighbors (log_message c m r) = neighbors r" "sent (log_message c m r) = sent r"
  "is_running (log_message c m r) = is_running r" "hostname (log_message c m r) = hostname r"
  "device_id (log_message c m r) = device_id r"
  "log_entries (log_message c m r) =
     log_entries r @ [\<lparr>stamp = strftime c (clock_reads r), host = hostname r, text_of = m\<rparr>]"
  by (simp_all add: log_message_def)

lemma receive_logic_quiet:
  "neighbors (fst (receive_logic c (r, sw))) = neighbors r \<and>
   sent (fst (receive_logic c (r, sw))) = sent r \<and>
   (\<exists>es (ps :: packet list). log_entries (fst (receive_logic c (r, sw))) = log_entries r @ es \<and>
      map text_of es = map (\<lambda>p. Received (packet_type p) (packet_source p)) ps)"
proof (cases "fst (receive_packet sw (device_id r))")
  case None
  then have "fst (receive_logic c (r, sw)) = r"
    by (simp add: receive_logic_def split_beta)
  moreover have "\<exists>es (ps :: packet list). log_entries r = log_entries r @ es \<and>
      map text_of es = map (\<lambda>p. Received (packet_type p) (packet_source p)) ps"
  proof (intro exI conjI)
    show "log_entries r = log_entries r @ []" by simp
    show "map text_of [] = map (\<lambda>p. Received (packet_type p) (packet_source p)) ([] :: packet list)" by simp
  qed
  ultimately show ?thesis by simp
next
  case (Some pk)
  then have e: "fst (receive_logic c (r, sw))
                  = log_message c (Received (packet_type pk) (packet_source pk)) r"
    by (simp add: receive_logic_def split_beta)
  have "\<exists>es (ps :: packet list). log_entries (log_message c (Received (packet_type pk) (packet_source pk)) r)
                   = log_entries r @ es \<and>
      map text_of es = map (\<lambda>p. Received (packet_type p) (packet_source p)) ps"
  proof (intro exI conjI)
    show "log_entries (log_message c (Received (packet_type pk) (packet_source pk)) r)
            = log_entries r @ [\<lparr>stamp = strftime c (clock_reads r), host = hostname r,
                       text_of = Received (packet_type pk) (packet_source pk)\<rparr>]"
      by (simp add: log_message_def)
    show "map text_of [\<lparr>stamp = strftime c (clock_reads r), host = hostname r,
                       text_of = Received (packet_type pk) (packet_source pk)\<rparr>]
            = map (\<lambda>p. Received (packet_type p) (packet_source p)) [pk]"
      by simp
  qed
  then show ?thesis
    unfolding e by (simp add: log_message_def)
qed

lemma send_logic_quiet:
  assumes "neighbors r = []"
  shows "neighbors (fst (send_logic c (r, sw))) = [] \<and>
         sent (fst (send_logic c (r, sw))) = sent r \<and>
         log_entries (fst (send_logic c (r, sw))) = log_entries r"
  using assms by (simp add: send_logic_def Let_def)

lemma run_iteration_quiet:
  assumes "neighbors r = []"
  shows "neighbors (fst (run_iteration c (r, sw))) = [] \<and>
         sent (fst (run_iteration c (r, sw))) = sent r \<and>
         (\<exists>es (ps :: packet list). log_entries (fst (run_iteration c (r, sw))) = log_entries r @ es \<and>
            map text_of es = map (\<lambda>p. Received (packet_type p) (packet_source p)) ps)"
proof -
  obtain r1 sw1 where s: "receive_logic c (r, sw) = (r1, sw1)" by (cases "receive_logic c (r, sw)")
  have n: "neighbors r1 = []" using receive_logic_quiet[of c r sw] assms s by simp
  show ?thesis
    using receive_logic_quiet[of c r sw] send_logic_quiet[OF n, of c sw1] s
    by (simp add: run_iteration_def)
qed

lemma run_loop_quiet:
  assumes "neighbors r = []"
  shows "sent (fst (run_loop c others (r, sw))) = sent r \<and>
         (\<exists>es (ps :: packet list). log_entries (fst (run_loop c others (r, sw))) = log_entries r @ es \<and>
            map text_of es = map (\<lambda>p. Received (packet_type p) (packet_source p)) ps)"
  using assms
proof (induction others arbitrary: r sw)
  case Nil
  have "\<exists>es (ps :: packet list). log_entries r = log_entries r @ es \<and>
          map text_of es = map (\<lambda>p. Received (packet_type p) (packet_source p)) ps"
  proof (intro exI conjI)
    show "log_entries r = log_entries r @ []" by simp
    show "map text_of [] = map (\<lambda>p. Received (packet_type p) (packet_source p)) ([] :: packet list)"
      by simp
  qed
  then show ?case by simp
next
  case (Cons other others)
  show ?case
  proof (cases "is_running r")
    case False
    have "\<exists>es (ps :: packet list). log_entries r = log_entries r @ es \<and>
            map text_of es = map (\<lambda>p. Received (packet_type p) (packet_source p)) ps"
    proof (intro exI conjI)
      show "log_entries r = log_entries r @ []" by simp
      show "map text_of [] = map (\<lambda>p. Received (packet_type p) (packet_source p)) ([] :: packet list)"
        by simp
    qed
    with False show ?thesis by simp
  next
    case True
    obtain r1 sw1 where s: "run_iteration c (r, other sw) = (r1, sw1)"
      by (cases "run_iteration c (r, other sw)")
    from run_iteration_quiet[OF Cons.prems, of c "other sw"] s
    obtain es and ps :: "packet list" where n1: "neighbors r1 = []" and s1: "sent r1 = sent r"
      and l1: "log_entries r1 = log_entries r @ es"
      and m1: "map text_of es = map (\<lambda>p. Received (packet_type p) (packet_source p)) ps"
      by auto
    from Cons.IH[OF n1, of sw1]
    obtain es2 and ps2 :: "packet list" where s2: "sent (fst (run_loop c others (r1, sw1))) = sent r1"
      and l2: "log_entries (fst (run_loop c others (r1, sw1))) = log_entries r1 @ es2"
      and m2: "map text_of es2 = map (\<lambda>p. Received (packet_type p) (packet_source p)) ps2"
      by auto
    have "map text_of (es @ es2) = map (\<lambda>p. Received (packet_type p) (packet_source p)) (ps @ ps2)"
      using m1 m2 by simp
    moreover have "log_entries (fst (run_loop c others (r1, sw1))) = log_entries r @ (es @ es2)"
      using l1 l2 by simp
    ultimately have "\<exists>es (ps :: packet list). log_entries (fst (run_loop c others (r1, sw1))) = log_entries r @ es \<and>
            map text_of es = map (\<lambda>p. Received (packet_type p) (packet_source p)) ps"
      by blast
    with True s s1 s2 show ?thesis by simp
  qed
qed

text \<open>
  Claim C9. A router whose neighbor list is empty makes no call of \<^verbatim>\<open>send_packet\<close> in a
  run of any number of passes, whatever the other threads do to the switch and whatever
  the clock shows, and what it logs during the run is a \<^verbatim>\<open>Thread started\<close> entry first, a
  \<^verbatim>\<open>Thread finished\<close> entry last, and only \<^verbatim>\<open>Received\<close> entries between them.
\<close>

theorem silent_router:
  assumes "neighbors r = []"
  shows "sent (fst (run c others (r, sw))) = sent r \<and>
         (\<exists>ps :: packet list. logged_since r (fst (run c others (r, sw)))
                  = Thread_started [] # map (\<lambda>p. Received (packet_type p) (packet_source p)) ps
                    @ [Thread_finished])"
proof -
  let ?r0 = "run_begin c r"
  have n0: "neighbors ?r0 = []" and s0: "sent ?r0 = sent r"
    and l0: "log_entries ?r0 = log_entries r @
               [\<lparr>stamp = strftime c (clock_reads r), host = hostname r, text_of = Thread_started []\<rparr>]"
    using assms by (simp_all add: run_begin_def log_message_def)
  obtain r1 sw1 where s: "run_loop c others (?r0, sw) = (r1, sw1)"
    by (cases "run_loop c others (?r0, sw)")
  from run_loop_quiet[OF n0, of c others sw] s
  obtain es and ps :: "packet list" where s1: "sent r1 = sent ?r0" and l1: "log_entries r1 = log_entries ?r0 @ es"
    and m1: "map text_of es = map (\<lambda>p. Received (packet_type p) (packet_source p)) ps"
    by auto
  have r: "fst (run c others (r, sw)) = run_end c r1"
    using s by (simp add: run_def)
  have "logged_since r (run_end c r1)
          = Thread_started [] # map (\<lambda>p. Received (packet_type p) (packet_source p)) ps @ [Thread_finished]"
    using l0 l1 m1 by (simp add: logged_since_def run_end_def log_message_def)
  moreover have "sent (run_end c r1) = sent r"
    using s0 s1 by (simp add: run_end_def log_message_def)
  ultimately show ?thesis unfolding r by blast
qed


lemma router9_simps:
  "neighbors router9 = []" "hostname router9 = PyStr ''Router9''"
  "sent router9 = []" "log_entries router9 = []" "clock_reads router9 = 0"
  "last_hello_time router9 = 0" "device_id router9 = ''R9''" "is_running router9"
  by (simp_all add: router9_def Router_init_def three_links_def link_between_def device_with_def)

lemma router9_run:
  "logged_since router9
     (fst (run example_clock
        [\<lambda>sw. sw, \<lambda>sw. send_packet sw ''R9'' (hello_from router1), \<lambda>sw. sw]
        (router9, empty_switch)))
   = [Thread_started [], Received ''OSPF_HELLO'' (PyStr ''Router1''), Thread_finished]"
  by (simp add: run_def run_begin_def run_end_def run_iteration_def receive_logic_def
      send_logic_def receive_packet_def queues_getitem_def send_packet_def log_message_def
      logged_since_def example_clock_def empty_switch_def hello_from_def router1_simps
      router9_simps Let_def split_beta)

theorem silent_router_witness:
  "neighbors router9 = [] \<and>
   sent (fst (run example_clock
      [\<lambda>sw. sw, \<lambda>sw. send_packet sw ''R9'' (hello_from router1), \<lambda>sw. sw]
      (router9, empty_switch))) = [] \<and>
   logged_since router9
     (fst (run example_clock
        [\<lambda>sw. sw, \<lambda>sw. send_packet sw ''R9'' (hello_from router1), \<lambda>sw. sw]
        (router9, empty_switch)))
   = [Thread_started [], Received ''OSPF_HELLO'' (PyStr ''Router1''), Thread_finished]"
proof -
  have n: "neighbors router9 = []" by (rule router9_simps)
  show ?thesis
    using n router9_run
      silent_router [OF n, of example_clock
        "[\<lambda>sw. sw, \<lambda>sw. send_packet sw ''R9'' (hello_from router1), \<lambda>sw. sw]" empty_switch]
    by (simp add: router9_simps)
qed

section \<open>Starting a simulation\<close>

text \<open>
  Claim C5. When a router thread of the last run is alive, option 2 answers that a
  simulation is already running and changes nothing: the devices, the topology, the
  switch and the router threads are as before.
\<close>

theorem start_simulation_busy:
  assumes "list_ex alive (router_threads ctl)"
  shows "start_simulation clocks schedule ctl = (Busy, ctl)"
  using assms by (simp add: start_simulation_def)

theorem start_simulation_busy_witness:
  "list_ex alive (router_threads busy_controller) \<and>
   start_simulation (\<lambda>i. example_clock) [0, 1, 0] busy_controller = (Busy, busy_controller)"
proof -
  have a: "list_ex alive (router_threads busy_controller)"
    by (simp add: busy_controller_def)
  show ?thesis
    using a start_simulation_busy [OF a, of "\<lambda>i. example_clock" "[0, 1, 0]"] by simp
qed

text \<open>
  Otherwise the simulation runs, and when it is over no thread is alive: in \<^verbatim>\<open>main\<close>,
  which waits for every thread before it shows the menu again, the answer above is
  never given.
\<close>

lemma start_simulation_completes:
  assumes "\<not> list_ex alive (router_threads ctl)"
  shows "fst (start_simulation clocks schedule ctl) = Completed \<and>
         \<not> list_ex alive (router_threads (snd (start_simulation clocks schedule ctl)))"
  using assms by (simp add: start_simulation_def Let_def split_beta list_ex_iff)

section \<open>The hostname of a router\<close>

lemma Router_init_hostname:
  "hostname (Router_init dev_id config links)
     = (case dd_hostname config of None \<Rightarrow> PyStr dev_id | Some v \<Rightarrow> v)"
  by (simp add: Router_init_def)

lemma for_each_invariant:
  assumes "\<And>x s s'. x \<in> set xs \<Longrightarrow> P s \<Longrightarrow> body x s = Inr s' \<Longrightarrow> P s'"
    and "P s" and "for_each body xs s = Inr s'"
  shows "P s'"
  using assms
proof (induction xs arbitrary: s)
  case Nil
  then show ?case by simp
next
  case (Cons x xs)
  from Cons.prems(3) obtain s1 where b: "body x s = Inr s1" and r: "for_each body xs s1 = Inr s'"
    by (auto split: sum.splits)
  have p1: "P s1" using Cons.prems(1)[of x s s1] Cons.prems(2) b by simp
  have step: "\<And>y t t'. y \<in> set xs \<Longrightarrow> P t \<Longrightarrow> body y t = Inr t' \<Longrightarrow> P t'"
    by (rule Cons.prems(1)) simp_all
  show ?case by (rule Cons.IH[OF step p1 r])
qed

lemma update_interface_hostname:
  "update_interface name f details = Inr details' \<Longrightarrow> dd_hostname details' = dd_hostname details"
  by (auto simp: update_interface_def split: option.splits)

lemma parse_line_hostname_line:
  assumes "parse_line raw (details, cur) = Inr (details', cur')"
    and "\<not> startswith (strip raw) ''hostname''"
  shows "dd_hostname details' = dd_hostname details"
  using assms
  by (auto simp: parse_line_def Let_def split: if_splits sum.splits dest!: update_interface_hostname)

lemma parse_line_hostname_key:
  assumes "parse_line raw (details, cur) = Inr (details', cur')"
    and "dd_hostname details \<noteq> None"
  shows "dd_hostname details' \<noteq> None"
  using assms
  by (auto simp: parse_line_def Let_def split: if_splits sum.splits dest!: update_interface_hostname)


lemma parse_config_file_hostname_key:
  assumes "parse_config_file dev_id lines = Inr (dev_id', details)"
  shows "dd_hostname details \<noteq> None"
proof -
  from assms obtain st where f: "for_each parse_line lines (initial_details, None) = Inr st"
    and d: "details = fst st"
    by (auto simp: parse_config_file_def split: sum.splits)
  have "dd_hostname (fst st) \<noteq> None"
  proof (rule for_each_invariant[where P = "\<lambda>s. dd_hostname (fst s) \<noteq> None", OF _ _ f])
    show "dd_hostname (fst (initial_details, None)) \<noteq> None" by (simp add: initial_details_def)
  next
    fix x s s' assume "dd_hostname (fst s) \<noteq> None" "parse_line x s = Inr s'"
    then show "dd_hostname (fst s') \<noteq> None"
      using parse_line_hostname_key[of x "fst s" "snd s" "fst s'" "snd s'"] by simp
  qed
  with d show ?thesis by simp
qed

lemma parse_config_file_no_hostname_line:
  assumes "parse_config_file dev_id lines = Inr (dev_id', details)"
    and "list_all (\<lambda>raw. \<not> startswith (strip raw) ''hostname'') lines"
  shows "dd_hostname details = Some PyNone \<and> hostname (Router_init dev_id' details links) = PyNone"
proof -
  from assms(1) obtain st where f: "for_each parse_line lines (initial_details, None) = Inr st"
    and d: "details = fst st"
    by (auto simp: parse_config_file_def split: sum.splits)
  have "dd_hostname (fst st) = Some PyNone"
  proof (rule for_each_invariant[where P = "\<lambda>s. dd_hostname (fst s) = Some PyNone", OF _ _ f])
    show "dd_hostname (fst (initial_details, None)) = Some PyNone" by (simp add: initial_details_def)
  next
    fix x s s' assume "x \<in> set lines" "dd_hostname (fst s) = Some PyNone" "parse_line x s = Inr s'"
    then show "dd_hostname (fst s') = Some PyNone"
      using parse_line_hostname_line[of x "fst s" "snd s" "fst s'" "snd s'"] assms(2)
      by (simp add: list_all_iff)
  qed
  with d show ?thesis by (simp add: Router_init_hostname)
qed

text \<open>
  Claim C6 says that the router's hostname is the device id when the device has no
  hostname. \<^verbatim>\<open>Router.__init__\<close> does take the device id when the key \<^verbatim>\<open>'hostname'\<close> is
  absent, and the string when it holds one (\<open>Router_init_hostname\<close>). The dictionary that
  \<^verbatim>\<open>parse_config_file\<close> returns always has the key (\<open>parse_config_file_hostname_key\<close>), with
  the value \<^verbatim>\<open>None\<close> when the file has no hostname line, and the router's hostname is then
  \<^verbatim>\<open>None\<close> and not the device id:
\<close>

theorem router_hostname_of_parsed_device:
  "parse_config_file ''R1'' no_hostname_lines
     = Inr (''R1'', \<lparr>dd_hostname = Some PyNone,
                     dd_interfaces = Some [(''Gi0/1'', addressed ''10.0.0.1'' ''255.255.255.252'')],
                     dd_default_route = PyNone, dd_ospf_enabled = False\<rparr>) \<and>
   hostname (Router_init ''R1''
       \<lparr>dd_hostname = Some PyNone,
        dd_interfaces = Some [(''Gi0/1'', addressed ''10.0.0.1'' ''255.255.255.252'')],
        dd_default_route = PyNone, dd_ospf_enabled = False\<rparr> []) = PyNone \<and>
   hostname (Router_init ''R1''
       \<lparr>dd_hostname = Some PyNone,
        dd_interfaces = Some [(''Gi0/1'', addressed ''10.0.0.1'' ''255.255.255.252'')],
        dd_default_route = PyNone, dd_ospf_enabled = False\<rparr> []) \<noteq> PyStr ''R1''"
  by code_simp

section \<open>What the parser hands to the topology builder\<close>

lemma map_fst_setitem:
  "map fst (setitem k v xs) = (if k \<in> set (map fst xs) then map fst xs else map fst xs @ [k])"
  by (induction xs) auto

lemma distinct_setitem:
  "distinct (map fst xs) \<Longrightarrow> distinct (map fst (setitem k v xs))"
  by (simp add: map_fst_setitem)

lemma set_setitem:
  "distinct (map fst xs) \<Longrightarrow> set (setitem k v xs) = insert (k, v) {p \<in> set xs. fst p \<noteq> k}"
  by (induction xs) (auto simp: rev_image_eqI)

lemma list_all_setitem:
  assumes "distinct (map fst xs)" "Q (k, v)" "\<And>p. p \<in> set xs \<Longrightarrow> fst p \<noteq> k \<Longrightarrow> Q p"
  shows "list_all Q (setitem k v xs)"
  using assms by (auto simp: list_all_iff set_setitem)

lemma update_interface_interfaces:
  assumes "update_interface name f details = Inr details'"
  shows "\<exists>old. map_of (get_interfaces details) name = Some old \<and>
           get_interfaces details' = setitem name (f old) (get_interfaces details)"
  using assms by (auto simp: update_interface_def get_interfaces_def split: option.splits)

lemma complete_description:
  assumes c: "complete_interfaces details"
    and u: "update_interface name (\<lambda>d. d\<lparr>description := Some text\<rparr>) details = Inr details'"
  shows "complete_interfaces details'"
proof -
  from update_interface_interfaces[OF u] obtain old
    where o: "map_of (get_interfaces details) name = Some old"
      and g: "get_interfaces details' = setitem name (old\<lparr>description := Some text\<rparr>) (get_interfaces details)"
    by auto
  have d: "distinct (map fst (get_interfaces details))" using c by (simp add: complete_interfaces_def)
  have m: "(name, old) \<in> set (get_interfaces details)" using o by (rule map_of_SomeD)
  have q: "ip_address old = None \<or> subnet_mask old \<noteq> None"
    using c m by (auto simp: complete_interfaces_def list_all_iff)
  show ?thesis
    unfolding complete_interfaces_def g
  proof (intro conjI)
    show "distinct (map fst (setitem name (old\<lparr>description := Some text\<rparr>) (get_interfaces details)))"
      using d by (rule distinct_setitem)
    show "list_all (\<lambda>int. ip_address (snd int) = None \<or> subnet_mask (snd int) \<noteq> None)
            (setitem name (old\<lparr>description := Some text\<rparr>) (get_interfaces details))"
      using d q c by (intro list_all_setitem) (auto simp: complete_interfaces_def list_all_iff)
  qed
qed

lemma complete_address:
  assumes c: "complete_interfaces details"
    and u1: "update_interface name (\<lambda>d. d\<lparr>ip_address := Some addr\<rparr>) details = Inr details1"
    and u2: "update_interface name (\<lambda>d. d\<lparr>subnet_mask := Some msk\<rparr>) details1 = Inr details2"
  shows "complete_interfaces details2"
proof -
  from update_interface_interfaces[OF u1] obtain old
    where g1: "get_interfaces details1 = setitem name (old\<lparr>ip_address := Some addr\<rparr>) (get_interfaces details)"
    by auto
  from update_interface_interfaces[OF u2] obtain old1
    where g2: "get_interfaces details2 = setitem name (old1\<lparr>subnet_mask := Some msk\<rparr>) (get_interfaces details1)"
    by auto
  have d: "distinct (map fst (get_interfaces details))" using c by (simp add: complete_interfaces_def)
  have d1: "distinct (map fst (get_interfaces details1))" unfolding g1 using d by (rule distinct_setitem)
  show ?thesis
    unfolding complete_interfaces_def g2
  proof (intro conjI)
    show "distinct (map fst (setitem name (old1\<lparr>subnet_mask := Some msk\<rparr>) (get_interfaces details1)))"
      using d1 by (rule distinct_setitem)
    show "list_all (\<lambda>int. ip_address (snd int) = None \<or> subnet_mask (snd int) \<noteq> None)
            (setitem name (old1\<lparr>subnet_mask := Some msk\<rparr>) (get_interfaces details1))"
    proof (rule list_all_setitem[OF d1])
      show "ip_address (snd (name, old1\<lparr>subnet_mask := Some msk\<rparr>)) = None \<or>
            subnet_mask (snd (name, old1\<lparr>subnet_mask := Some msk\<rparr>)) \<noteq> None" by simp
    next
      fix p assume "p \<in> set (get_interfaces details1)" "fst p \<noteq> name"
      then have "p \<in> set (get_interfaces details)"
        unfolding g1 using d by (auto simp: set_setitem)
      then show "ip_address (snd p) = None \<or> subnet_mask (snd p) \<noteq> None"
        using c by (auto simp: complete_interfaces_def list_all_iff)
    qed
  qed
qed

lemma complete_new_interface:
  assumes c: "complete_interfaces details"
  shows "complete_interfaces (details\<lparr>dd_interfaces := Some (setitem name
            \<lparr>description = None, ip_address = None, subnet_mask = None\<rparr> (get_interfaces details))\<rparr>)"
proof -
  have d: "distinct (map fst (get_interfaces details))" using c by (simp add: complete_interfaces_def)
  have "list_all (\<lambda>int. ip_address (snd int) = None \<or> subnet_mask (snd int) \<noteq> None)
          (setitem name \<lparr>description = None, ip_address = None, subnet_mask = None\<rparr> (get_interfaces details))"
    using d c by (intro list_all_setitem) (auto simp: complete_interfaces_def list_all_iff)
  then show ?thesis
    using distinct_setitem[OF d] by (simp add: complete_interfaces_def get_interfaces_def)
qed

lemma complete_other_keys:
  "complete_interfaces (details\<lparr>dd_hostname := h\<rparr>) = complete_interfaces details"
  "complete_interfaces (details\<lparr>dd_ospf_enabled := b\<rparr>) = complete_interfaces details"
  by (simp_all add: complete_interfaces_def get_interfaces_def)

lemma parse_line_complete:
  assumes "parse_line raw (details, cur) = Inr (details', cur')"
    and "complete_interfaces details"
  shows "complete_interfaces details'"
  using assms
  by (auto simp: parse_line_def Let_def complete_other_keys
      split: if_splits sum.splits
      intro: complete_new_interface complete_description complete_address)

lemma parse_config_file_complete:
  assumes "parse_config_file dev_id lines = Inr (dev_id', details)"
  shows "complete_interfaces details"
proof -
  from assms obtain st where f: "for_each parse_line lines (initial_details, None) = Inr st"
    and d: "details = fst st"
    by (auto simp: parse_config_file_def split: sum.splits)
  have "complete_interfaces (fst st)"
  proof (rule for_each_invariant[where P = "\<lambda>s. complete_interfaces (fst s)", OF _ _ f])
    show "complete_interfaces (fst (initial_details, None))"
      by (simp add: initial_details_def complete_interfaces_def get_interfaces_def)
  next
    fix x s s' assume "complete_interfaces (fst s)" "parse_line x s = Inr s'"
    then show "complete_interfaces (fst s')"
      using parse_line_complete[of x "fst s" "snd s" "fst s'" "snd s'"] by simp
  qed
  with d show ?thesis by simp
qed

text \<open>
  So a mapping with distinct ids whose devices all come from the parser has unique keys
  and a mask for every address, and \<^verbatim>\<open>build_topology\<close> returns on it.
\<close>

lemma parsed_devices_shape:
  assumes "distinct (map fst devs)" and "list_all (\<lambda>dev. complete_interfaces (snd dev)) devs"
  shows "unique_keys devs \<and> masks_present devs"
  using assms by (auto simp: unique_keys_def masks_present_def complete_interfaces_def list_all_iff)

lemma build_topology_on_parsed_devices:
  assumes "distinct (map fst devs)" and "list_all (\<lambda>dev. complete_interfaces (snd dev)) devs"
  shows "build_topology network devs = Inr (all_links network devs)"
  using parsed_devices_shape[OF assms] assms(1) by (simp add: build_topology_total)

end
